theory Spec2Isabelle
  imports Complex_Main "HOL-Library.Sublist"
begin

section \<open>Exceptions\<close>

text \<open>
  The exceptions the pipeline distinguishes.  The first two are the kinds named by the
  narrow retry policies of \<^verbatim>\<open>instagram.py\<close>; \<open>OtherException\<close> stands for every
  other subclass of \<^verbatim>\<open>Exception\<close>; \<open>RetryError\<close> is what the retry decorator raises
  when its attempts are used up; \<open>KeyboardInterrupt\<close> is the one exception that is not
  an \<^verbatim>\<open>Exception\<close> and so passes every \<^verbatim>\<open>except Exception\<close> clause.
\<close>

datatype exn =
    ConnectionException string
  | QueryReturnedBadRequestException string
  | OtherException string
  | RetryError exn
  | KeyboardInterrupt

text \<open>\<^verbatim>\<open>isinstance(e, Exception)\<close>.\<close>

fun is_Exception :: "exn \<Rightarrow> bool" where
  "is_Exception KeyboardInterrupt = False"
| "is_Exception e = True"

text \<open>
  \<^verbatim>\<open>str(e)\<close>, the message an exception carries.  The text of a \<^verbatim>\<open>RetryError\<close> is the
  one tenacity gives it: the name of the class and, in brackets, the \<^verbatim>\<open>repr\<close> of the last
  attempt, which names the class of the exception raised and the address of the attempt
  object, not the message of the exception.  That \<^verbatim>\<open>repr\<close> is the parameter \<open>fr\<close>.
\<close>

fun exn_str :: "(exn \<Rightarrow> string) \<Rightarrow> exn \<Rightarrow> string" where
  "exn_str fr (ConnectionException msg) = msg"
| "exn_str fr (QueryReturnedBadRequestException msg) = msg"
| "exn_str fr (OtherException msg) = msg"
| "exn_str fr (RetryError e) = ''RetryError['' @ fr e @ '']''"
| "exn_str fr KeyboardInterrupt = ''''"

section \<open>Data model (\<^verbatim>\<open>models.py\<close>, \<^verbatim>\<open>instagram.py\<close>)\<close>

record ExerciseAnalysis =
  muscle_group :: string
  machine :: string
  wrong_way :: string
  correct_way :: string
  exercise_trainer_insights :: string

record GeneralInsights =
  trainer_insights :: string
  video_type :: string

text \<open>
  \<^verbatim>\<open>VideoResult\<close>.  Its fields \<^verbatim>\<open>shortcode\<close> and \<^verbatim>\<open>url\<close> are prefixed here, because
  \<^verbatim>\<open>VideoPost\<close> has fields of the same names.
\<close>

record VideoResult =
  result_shortcode :: string
  result_url :: string
  is_exercise_video :: bool
  exercise_analysis :: "ExerciseAnalysis option"
  general_insights :: "GeneralInsights option"
  error :: "string option"

record ProgressState =
  state_profile :: string
  processed_shortcodes :: "string list"
  results_file :: string

record VideoPost =
  shortcode :: string
  url :: string
  video_url :: string
  caption :: "string option"

record VideoList =
  profile :: string
  videos :: "VideoPost list"

section \<open>The machine: external services, temporary files, output files, observed events\<close>

text \<open>
  What a run can be observed to do, in the order it does it: every \<^verbatim>\<open>time.sleep\<close>,
  every call of \<^verbatim>\<open>urlretrieve\<close>, the start of the processing of a post (the log line
  of \<^verbatim>\<open>_process_video\<close>), every call of \<^verbatim>\<open>VideoAnalyzer.analyze\<close>, every line appended to
  a results file, every shortcode appended to \<^verbatim>\<open>state.processed_shortcodes\<close> and every
  rewrite of the progress file.
\<close>

datatype event =
    EvSleep real
  | EvUrlretrieve string string
  | EvProcessing string
  | EvAnalyze string string
  | EvSink string VideoResult
  | EvLedgerAppend string
  | EvSave string ProgressState

text \<open>
  The text of a progress file is represented by what \<^verbatim>\<open>json.loads\<close> followed by
  \<^verbatim>\<open>ProgressState.model_validate\<close> makes of it: a state, or an exception (with its
  message).  A file written by \<^verbatim>\<open>_save_progress\<close> reads back as the state written.
\<close>

datatype pfile = Valid ProgressState | Corrupt string

text \<open>
  The external collaborators (network, Gemini, random numbers, the temporary directory)
  act on a state of their own, of any type \<open>'e\<close>, and on the set of temporary files that
  exist.  They have no access to the output directory, which only the driver writes.
\<close>

type_synonym 'e outside = "'e \<times> string set"

record 'e machine =
  ext :: 'e
  files :: "string set"
  trace :: "event list"
  jsonl :: "string \<rightharpoonup> VideoResult list"
  progress_files :: "string \<rightharpoonup> pfile"

datatype schema = ExerciseSchema | GeneralSchema

text \<open>
  The primitive operations of the libraries the code calls.  Each takes the state of the
  outside and returns its result, or the exception it raises, with the new state.
  \<open>write_fault\<close> says whether a write to the named output file fails, and with what.
  \<open>upload_video\<close> and \<open>analyze_with_schema\<close> are the two decorated methods of
  \<^verbatim>\<open>VideoAnalyzer\<close> taken whole.  \<open>future_repr\<close> is the \<^verbatim>\<open>repr\<close> of the last attempt of a
  retried call that ended with the given exception.
\<close>

record 'e env =
  uniform :: "'e outside \<Rightarrow> real \<times> 'e outside"
  urlretrieve :: "string \<Rightarrow> string \<Rightarrow> 'e outside \<Rightarrow> (exn + unit) \<times> 'e outside"
  named_temporary_file :: "'e outside \<Rightarrow> (exn + string) \<times> 'e outside"
  init_components :: "'e outside \<Rightarrow> (exn + unit) \<times> 'e outside"
  upload_video :: "string \<Rightarrow> 'e outside \<Rightarrow> (exn + string) \<times> 'e outside"
  analyze_with_schema :: "string \<Rightarrow> schema \<Rightarrow> 'e outside \<Rightarrow> (exn + string) \<times> 'e outside"
  validate_exercise :: "string \<Rightarrow> string + ExerciseAnalysis"
  validate_general :: "string \<Rightarrow> string + GeneralInsights"
  files_delete :: "string \<Rightarrow> 'e outside \<Rightarrow> (exn + unit) \<times> 'e outside"
  write_fault :: "string \<Rightarrow> 'e outside \<Rightarrow> exn option \<times> 'e outside"
  future_repr :: "exn \<Rightarrow> string"

definition call :: "('e outside \<Rightarrow> 'a \<times> 'e outside) \<Rightarrow> 'e machine \<Rightarrow> 'a \<times> 'e machine" where
  "call f m = (case f (ext m, files m) of (r, (e', fs')) \<Rightarrow> (r, m\<lparr>ext := e', files := fs'\<rparr>))"

definition log_event :: "event \<Rightarrow> 'e machine \<Rightarrow> 'e machine" where
  "log_event ev m = m\<lparr>trace := trace m @ [ev]\<rparr>"

text \<open>\<^verbatim>\<open>time.sleep(d)\<close>.\<close>

definition time_sleep :: "real \<Rightarrow> 'e machine \<Rightarrow> 'e machine" where
  "time_sleep d m = log_event (EvSleep d) m"

section \<open>The retry wrapper\<close>

text \<open>
  The arguments of a \<^verbatim>\<open>@retry\<close> decorator: \<^verbatim>\<open>retry_if_exception_type\<close>,
  \<^verbatim>\<open>stop_after_attempt\<close> and the three arguments of \<^verbatim>\<open>wait_exponential\<close>.
\<close>

record retry_policy =
  retry_on :: "exn \<Rightarrow> bool"
  stop_after_attempt :: nat
  wait_multiplier :: real
  wait_min :: real
  wait_max :: real

text \<open>
  Modelled from the spec: the retry wrapper itself, which is the \<^verbatim>\<open>retry\<close> decorator of
  the tenacity library and not under \<^verbatim>\<open>src/\<close>.  The spec: ``execute the operation; on a
  retryable failure, sleep for the computed delay and re-attempt; on exhausting
  attempts, propagate the last failure wrapped with attempt-count context. Backoff is
  exponential with a configurable multiplier, floor, and ceiling:
  \<^verbatim>\<open>delay = clamp(multiplier * 2^attempt, min, max)\<close>''.  The attempt index counts the
  failed attempts from 0.  A failure that is not retryable is raised as it is.
\<close>

definition clamp :: "real \<Rightarrow> real \<Rightarrow> real \<Rightarrow> real" where
  "clamp x lo hi = max lo (min x hi)"

definition wait_exponential :: "retry_policy \<Rightarrow> nat \<Rightarrow> real" where
  "wait_exponential pol attempt = clamp (wait_multiplier pol * 2 ^ attempt) (wait_min pol) (wait_max pol)"

text \<open>
  \<open>retry_from pol f k attempt\<close> makes the attempt with index \<open>attempt\<close>, with \<open>k\<close> more
  attempts allowed after it.
\<close>

fun retry_from ::
  "retry_policy \<Rightarrow> ('e machine \<Rightarrow> (exn + 'a) \<times> 'e machine) \<Rightarrow> nat \<Rightarrow> nat \<Rightarrow> 'e machine
    \<Rightarrow> (exn + 'a) \<times> 'e machine" where
  "retry_from pol f 0 attempt m =
     (case f m of
        (Inr v, m') \<Rightarrow> (Inr v, m')
      | (Inl e, m') \<Rightarrow> if retry_on pol e then (Inl (RetryError e), m') else (Inl e, m'))"
| "retry_from pol f (Suc k) attempt m =
     (case f m of
        (Inr v, m') \<Rightarrow> (Inr v, m')
      | (Inl e, m') \<Rightarrow>
          if retry_on pol e
          then retry_from pol f k (Suc attempt) (time_sleep (wait_exponential pol attempt) m')
          else (Inl e, m'))"

definition retry ::
  "retry_policy \<Rightarrow> ('e machine \<Rightarrow> (exn + 'a) \<times> 'e machine) \<Rightarrow> 'e machine \<Rightarrow> (exn + 'a) \<times> 'e machine" where
  "retry pol f m = retry_from pol f (stop_after_attempt pol - 1) 0 m"

text \<open>
  The policies of the source.  \<^verbatim>\<open>retry_if_exception_type((ConnectionException,
  QueryReturnedBadRequestException))\<close> for \<^verbatim>\<open>_get_profile\<close> and
  \<^verbatim>\<open>get_post_by_shortcode\<close>, \<^verbatim>\<open>retry_if_exception_type(Exception)\<close> for the others.
\<close>

fun is_connection_error :: "exn \<Rightarrow> bool" where
  "is_connection_error (ConnectionException msg) = True"
| "is_connection_error (QueryReturnedBadRequestException msg) = True"
| "is_connection_error e = False"

definition get_profile_policy :: retry_policy where
  "get_profile_policy =
     \<lparr>retry_on = is_connection_error, stop_after_attempt = 3,
      wait_multiplier = 60, wait_min = 60, wait_max = 300\<rparr>"

definition upload_video_policy :: retry_policy where
  "upload_video_policy =
     \<lparr>retry_on = is_Exception, stop_after_attempt = 3,
      wait_multiplier = 10, wait_min = 10, wait_max = 120\<rparr>"

definition download_video_policy :: retry_policy where
  "download_video_policy =
     \<lparr>retry_on = is_Exception, stop_after_attempt = 3,
      wait_multiplier = 5, wait_min = 5, wait_max = 60\<rparr>"

section \<open>The crawler's download (\<^verbatim>\<open>instagram.py\<close>)\<close>

definition BASE_DELAY_SECONDS :: real where
  "BASE_DELAY_SECONDS = 5"

text \<open>
  \<^verbatim>\<open>_sleep_with_jitter(base)\<close>: the jitter is the value \<^verbatim>\<open>random.uniform(0,
  DELAY_JITTER_SECONDS)\<close> returns.
\<close>

definition sleep_with_jitter :: "'e env \<Rightarrow> real \<Rightarrow> 'e machine \<Rightarrow> 'e machine" where
  "sleep_with_jitter env base m =
     (case call (uniform env) m of (jitter, m') \<Rightarrow> time_sleep (base + jitter) m')"

text \<open>The body of \<^verbatim>\<open>download_video\<close>, one attempt.\<close>

definition download_attempt ::
  "'e env \<Rightarrow> string \<Rightarrow> string \<Rightarrow> 'e machine \<Rightarrow> (exn + string) \<times> 'e machine" where
  "download_attempt env vurl output_path m =
     (case call (urlretrieve env vurl output_path)
             (log_event (EvUrlretrieve vurl output_path)
               (sleep_with_jitter env BASE_DELAY_SECONDS m)) of
        (Inl e, m') \<Rightarrow> (Inl e, m')
      | (Inr u, m') \<Rightarrow> (Inr output_path, m'))"

definition download_video ::
  "'e env \<Rightarrow> string \<Rightarrow> string \<Rightarrow> 'e machine \<Rightarrow> (exn + string) \<times> 'e machine" where
  "download_video env vurl output_path =
     retry download_video_policy (download_attempt env vurl output_path)"

section \<open>The analyzer (\<^verbatim>\<open>analyzer.py\<close>)\<close>

definition instagram_url :: "string \<Rightarrow> string" where
  "instagram_url sc = ''https://www.instagram.com/p/'' @ sc @ ''/''"

definition exercise_result :: "string \<Rightarrow> ExerciseAnalysis \<Rightarrow> VideoResult" where
  "exercise_result sc ea =
     \<lparr>result_shortcode = sc, result_url = instagram_url sc, is_exercise_video = True,
      exercise_analysis = Some ea, general_insights = None, error = None\<rparr>"

definition general_result :: "string \<Rightarrow> GeneralInsights \<Rightarrow> VideoResult" where
  "general_result sc gi =
     \<lparr>result_shortcode = sc, result_url = instagram_url sc, is_exercise_video = False,
      exercise_analysis = None, general_insights = Some gi, error = None\<rparr>"

definition error_result :: "string \<Rightarrow> string \<Rightarrow> VideoResult" where
  "error_result sc msg =
     \<lparr>result_shortcode = sc, result_url = instagram_url sc, is_exercise_video = False,
      exercise_analysis = None, general_insights = None, error = Some msg\<rparr>"

text \<open>
  The inner \<^verbatim>\<open>try\<close> block of \<^verbatim>\<open>analyze\<close>: the analysis with the exercise schema.  A
  \<^verbatim>\<open>ValidationError\<close> of \<^verbatim>\<open>model_validate_json\<close> is an \<^verbatim>\<open>Exception\<close>.
\<close>

definition try_exercise_schema ::
  "'e env \<Rightarrow> string \<Rightarrow> string \<Rightarrow> 'e machine \<Rightarrow> (exn + VideoResult) \<times> 'e machine" where
  "try_exercise_schema env video_file sc m =
     (case call (analyze_with_schema env video_file ExerciseSchema) m of
        (Inl e, m') \<Rightarrow> (Inl e, m')
      | (Inr response_text, m') \<Rightarrow>
          (case validate_exercise env response_text of
             Inl msg \<Rightarrow> (Inl (OtherException msg), m')
           | Inr ea \<Rightarrow> (Inr (exercise_result sc ea), m')))"

text \<open>The handler of the inner \<^verbatim>\<open>try\<close>: the fallback to general insights.\<close>

definition try_general_schema ::
  "'e env \<Rightarrow> string \<Rightarrow> string \<Rightarrow> 'e machine \<Rightarrow> (exn + VideoResult) \<times> 'e machine" where
  "try_general_schema env video_file sc m =
     (case call (analyze_with_schema env video_file GeneralSchema) m of
        (Inl e, m') \<Rightarrow> (Inl e, m')
      | (Inr response_text, m') \<Rightarrow>
          (case validate_general env response_text of
             Inl msg \<Rightarrow> (Inl (OtherException msg), m')
           | Inr gi \<Rightarrow> (Inr (general_result sc gi), m')))"

text \<open>\<^verbatim>\<open>_delete_video\<close>: an \<^verbatim>\<open>Exception\<close> of the deletion is logged and dropped.\<close>

definition delete_video :: "'e env \<Rightarrow> string \<Rightarrow> 'e machine \<Rightarrow> exn option \<times> 'e machine" where
  "delete_video env video_file m =
     (case call (files_delete env video_file) m of
        (Inl e, m') \<Rightarrow> if is_Exception e then (None, m') else (Some e, m')
      | (Inr u, m') \<Rightarrow> (None, m'))"

text \<open>
  \<^verbatim>\<open>analyze\<close>.  The uploaded file is an object and always true in \<^verbatim>\<open>if video_file\<close>, so
  the \<^verbatim>\<open>finally\<close> clause deletes it whenever the upload returned.  An exception raised
  in the \<^verbatim>\<open>finally\<close> clause replaces the result of the \<^verbatim>\<open>try\<close> statement.
\<close>

definition analyze ::
  "'e env \<Rightarrow> string \<Rightarrow> string \<Rightarrow> 'e machine \<Rightarrow> (exn + VideoResult) \<times> 'e machine" where
  "analyze env video_path sc m =
     (case call (upload_video env video_path) (log_event (EvAnalyze video_path sc) m) of
        (Inl e, m1) \<Rightarrow>
          if is_Exception e then (Inr (error_result sc (exn_str (future_repr env) e)), m1) else (Inl e, m1)
      | (Inr video_file, m1) \<Rightarrow>
          (case (case try_exercise_schema env video_file sc m1 of
                   (Inr r, m2) \<Rightarrow> (Inr r, m2)
                 | (Inl e, m2) \<Rightarrow>
                     if is_Exception e then try_general_schema env video_file sc m2
                     else (Inl e, m2)) of
             (res, m3) \<Rightarrow>
               (case delete_video env video_file m3 of
                  (Some e, m4) \<Rightarrow> (Inl e, m4)
                | (None, m4) \<Rightarrow>
                    (case res of
                       Inr r \<Rightarrow> (Inr r, m4)
                     | Inl e \<Rightarrow>
                         if is_Exception e then (Inr (error_result sc (exn_str (future_repr env) e)), m4)
                         else (Inl e, m4)))))"

section \<open>The pipeline (\<^verbatim>\<open>pipeline.py\<close>)\<close>

text \<open>Joining a directory and a file name is written as concatenation with a slash.\<close>

definition get_progress_file :: "string \<Rightarrow> string \<Rightarrow> string" where
  "get_progress_file prof output_dir = output_dir @ ''/.progress_'' @ prof @ ''.json''"

definition get_results_file :: "string \<Rightarrow> string \<Rightarrow> string" where
  "get_results_file prof output_dir = output_dir @ ''/results_'' @ prof @ ''.jsonl''"

definition fresh_state :: "string \<Rightarrow> string \<Rightarrow> ProgressState" where
  "fresh_state prof output_dir =
     \<lparr>state_profile = prof, processed_shortcodes = [],
      results_file = get_results_file prof output_dir\<rparr>"

text \<open>
  \<^verbatim>\<open>_load_progress\<close>: a missing file, and a file whose reading, parsing or validation
  raises, both end in the \<^verbatim>\<open>return\<close> after the \<^verbatim>\<open>if\<close>.
\<close>

definition load_progress :: "string \<Rightarrow> string \<Rightarrow> 'e machine \<Rightarrow> ProgressState" where
  "load_progress prof output_dir m =
     (case progress_files m (get_progress_file prof output_dir) of
        Some (Valid st) \<Rightarrow> st
      | Some (Corrupt msg) \<Rightarrow> fresh_state prof output_dir
      | None \<Rightarrow> fresh_state prof output_dir)"

text \<open>
  \<^verbatim>\<open>_save_progress\<close> and \<^verbatim>\<open>_append_result\<close>.  A write that fails raises and leaves the
  file as it was.  A line of a results file is represented by the \<^verbatim>\<open>VideoResult\<close> it
  is the JSON of.  The results file and the progress file are taken to be two files.
\<close>

definition save_progress ::
  "'e env \<Rightarrow> ProgressState \<Rightarrow> string \<Rightarrow> 'e machine \<Rightarrow> exn option \<times> 'e machine" where
  "save_progress env st output_dir m =
     (let pf = get_progress_file (state_profile st) output_dir in
      case call (write_fault env pf) m of
        (Some e, m') \<Rightarrow> (Some e, m')
      | (None, m') \<Rightarrow>
          (None, log_event (EvSave pf st) (m'\<lparr>progress_files := (progress_files m')(pf \<mapsto> Valid st)\<rparr>)))"

definition file_lines :: "'e machine \<Rightarrow> string \<Rightarrow> VideoResult list" where
  "file_lines m rf = (case jsonl m rf of None \<Rightarrow> [] | Some ls \<Rightarrow> ls)"

definition append_result ::
  "'e env \<Rightarrow> VideoResult \<Rightarrow> string \<Rightarrow> 'e machine \<Rightarrow> exn option \<times> 'e machine" where
  "append_result env result rf m =
     (case call (write_fault env rf) m of
        (Some e, m') \<Rightarrow> (Some e, m')
      | (None, m') \<Rightarrow>
          (None, log_event (EvSink rf result)
                   (m'\<lparr>jsonl := (jsonl m')(rf \<mapsto> file_lines m' rf @ [result])\<rparr>)))"

text \<open>
  \<^verbatim>\<open>_process_video\<close>.  The \<^verbatim>\<open>with\<close> statement creates the temporary file and leaves it
  on disk (\<^verbatim>\<open>delete=False\<close>); it is outside the \<^verbatim>\<open>try\<close>.  There is no \<^verbatim>\<open>except\<close>
  clause: an exception of the download or of the analyzer leaves the function after
  the \<^verbatim>\<open>finally\<close> clause.  The \<^verbatim>\<open>unlink\<close> of a file that exists is taken to succeed.
\<close>

definition process_video ::
  "'e env \<Rightarrow> VideoPost \<Rightarrow> 'e machine \<Rightarrow> (exn + VideoResult) \<times> 'e machine" where
  "process_video env post m =
     (case call (named_temporary_file env) m of
        (Inl e, m0) \<Rightarrow> (Inl e, m0)
      | (Inr video_path, m0) \<Rightarrow>
          (case (case download_video env (video_url post) video_path
                        (log_event (EvProcessing (shortcode post))
                           (m0\<lparr>files := insert video_path (files m0)\<rparr>)) of
                   (Inl e, m1) \<Rightarrow> (Inl e, m1)
                 | (Inr p, m1) \<Rightarrow> analyze env video_path (shortcode post) m1) of
             (res, m2) \<Rightarrow>
               (res, if video_path \<in> files m2 then m2\<lparr>files := files m2 - {video_path}\<rparr> else m2)))"

text \<open>\<^verbatim>\<open>if result.error:\<close> is true for an error message that is not empty.\<close>

definition has_error :: "VideoResult \<Rightarrow> bool" where
  "has_error result = (case error result of None \<Rightarrow> False | Some msg \<Rightarrow> msg \<noteq> [])"

text \<open>
  \<^verbatim>\<open>videos_to_process[:max_videos]\<close>: a negative bound counts from the end of the list.
\<close>

definition slice_to :: "'a list \<Rightarrow> int \<Rightarrow> 'a list" where
  "slice_to xs n = (if 0 \<le> n then take (nat n) xs else take (nat (int (length xs) + n)) xs)"

definition videos_to_process :: "VideoList \<Rightarrow> ProgressState \<Rightarrow> int option \<Rightarrow> VideoPost list" where
  "videos_to_process video_list st max_videos =
     (let candidates = filter (\<lambda>v. shortcode v \<notin> set (processed_shortcodes st)) (videos video_list)
      in case max_videos of
           None \<Rightarrow> candidates
         | Some n \<Rightarrow> if n \<noteq> 0 then slice_to candidates n else candidates)"

text \<open>The variables of the loop of \<^verbatim>\<open>run_pipeline_from_file\<close>.\<close>

record 'e loop_state =
  mach :: "'e machine"
  state :: ProgressState
  processed_count :: nat
  error_count :: nat

text \<open>
  The handler \<^verbatim>\<open>except Exception\<close> of the loop body; anything else leaves the loop.
\<close>

definition on_exception :: "exn \<Rightarrow> 'e loop_state \<Rightarrow> exn option \<times> 'e loop_state" where
  "on_exception e l =
     (if is_Exception e then (None, l\<lparr>error_count := error_count l + 1\<rparr>) else (Some e, l))"

text \<open>The body of the \<^verbatim>\<open>for\<close> loop, for one post.\<close>

definition loop_body ::
  "'e env \<Rightarrow> string \<Rightarrow> string \<Rightarrow> VideoPost \<Rightarrow> 'e loop_state \<Rightarrow> exn option \<times> 'e loop_state" where
  "loop_body env output_dir rf post l =
     (case process_video env post (mach l) of
        (Inl e, m1) \<Rightarrow> on_exception e (l\<lparr>mach := m1\<rparr>)
      | (Inr result, m1) \<Rightarrow>
          if has_error result then (None, l\<lparr>mach := m1, error_count := error_count l + 1\<rparr>)
          else
            (case append_result env result rf m1 of
               (Some e, m2) \<Rightarrow> on_exception e (l\<lparr>mach := m2\<rparr>)
             | (None, m2) \<Rightarrow>
                 (let st' = (state l)\<lparr>processed_shortcodes :=
                               processed_shortcodes (state l) @ [shortcode post]\<rparr>
                  in case save_progress env st' output_dir
                            (log_event (EvLedgerAppend (shortcode post)) m2) of
                       (Some e, m3) \<Rightarrow> on_exception e (l\<lparr>mach := m3, state := st'\<rparr>)
                     | (None, m3) \<Rightarrow>
                         (None, l\<lparr>mach := m3, state := st',
                                  processed_count := processed_count l + 1\<rparr>))))"

fun process_all ::
  "'e env \<Rightarrow> string \<Rightarrow> string \<Rightarrow> VideoPost list \<Rightarrow> 'e loop_state \<Rightarrow> exn option \<times> 'e loop_state" where
  "process_all env output_dir rf [] l = (None, l)"
| "process_all env output_dir rf (post # rest) l =
     (case loop_body env output_dir rf post l of
        (Some e, l') \<Rightarrow> (Some e, l')
      | (None, l') \<Rightarrow> process_all env output_dir rf rest l')"

text \<open>
  \<^verbatim>\<open>run_pipeline_from_file\<close>.  The result is the exception that leaves the function, if
  any, and the variables of the loop at that point.  \<open>init_components\<close> is the
  construction of the crawler and of the analyzer, which may raise.  The creation of the
  output directory and the log lines are not modelled.
\<close>

definition run_pipeline_from_file ::
  "'e env \<Rightarrow> VideoList \<Rightarrow> string \<Rightarrow> int option \<Rightarrow> 'e machine \<Rightarrow> exn option \<times> 'e loop_state" where
  "run_pipeline_from_file env video_list output_dir max_videos m =
     (let st = load_progress (profile video_list) output_dir m in
      case call (init_components env) m of
        (Inl e, m') \<Rightarrow>
          (Some e, \<lparr>mach = m', state = st, processed_count = 0, error_count = 0\<rparr>)
      | (Inr u, m') \<Rightarrow>
          process_all env output_dir (results_file st)
            (videos_to_process video_list st max_videos)
            \<lparr>mach = m', state = st, processed_count = 0, error_count = 0\<rparr>)"

section \<open>Observations on traces and runs\<close>

text \<open>
  The events of the driver itself: a line written to a results file, a shortcode appended
  to the ledger in memory, a progress file rewritten.
\<close>

fun is_driver_event :: "event \<Rightarrow> bool" where
  "is_driver_event (EvSink p r) = True"
| "is_driver_event (EvLedgerAppend sc) = True"
| "is_driver_event (EvSave p st) = True"
| "is_driver_event ev = False"

text \<open>
  The events of a download: the sleeps and the calls of \<^verbatim>\<open>urlretrieve\<close>.
\<close>

fun is_net_event :: "event \<Rightarrow> bool" where
  "is_net_event (EvSleep d) = True"
| "is_net_event (EvUrlretrieve u p) = True"
| "is_net_event ev = False"

text \<open>
  \<open>m'\<close> has the trace of \<open>m\<close> followed by events that all satisfy \<open>P\<close>, and the
  output files of \<open>m\<close>.
\<close>

definition extends_by :: "(event \<Rightarrow> bool) \<Rightarrow> 'e machine \<Rightarrow> 'e machine \<Rightarrow> bool" where
  "extends_by P m m' \<longleftrightarrow>
     (\<exists>evs. trace m' = trace m @ evs \<and> list_all P evs) \<and>
     jsonl m' = jsonl m \<and> progress_files m' = progress_files m"

text \<open>
  The shortcodes \<^verbatim>\<open>analyze\<close> was called with, in the order of the calls.
\<close>

fun analyze_calls :: "event list \<Rightarrow> string list" where
  "analyze_calls [] = []"
| "analyze_calls (EvAnalyze p sc # evs) = sc # analyze_calls evs"
| "analyze_calls (ev # evs) = analyze_calls evs"

text \<open>
  \<open>m'\<close> has the trace and the output files of \<open>m\<close>.
\<close>

definition keeps :: "'e machine \<Rightarrow> 'e machine \<Rightarrow> bool" where
  "keeps m m' \<longleftrightarrow> trace m' = trace m \<and> jsonl m' = jsonl m \<and> progress_files m' = progress_files m"

text \<open>The part of \<^verbatim>\<open>analyze\<close> that follows an upload that returned.\<close>

definition analyze_uploaded ::
  "'e env \<Rightarrow> string \<Rightarrow> string \<Rightarrow> 'e machine \<Rightarrow> (exn + VideoResult) \<times> 'e machine" where
  "analyze_uploaded env video_file sc m1 =
     (case (case try_exercise_schema env video_file sc m1 of
                   (Inr r, m2) \<Rightarrow> (Inr r, m2)
                 | (Inl e, m2) \<Rightarrow>
                     if is_Exception e then try_general_schema env video_file sc m2
                     else (Inl e, m2)) of
             (res, m3) \<Rightarrow>
               (case delete_video env video_file m3 of
                  (Some e, m4) \<Rightarrow> (Inl e, m4)
                | (None, m4) \<Rightarrow>
                    (case res of
                       Inr r \<Rightarrow> (Inr r, m4)
                     | Inl e \<Rightarrow>
                         if is_Exception e then (Inr (error_result sc (exn_str (future_repr env) e)), m4)
                         else (Inl e, m4))))"

text \<open>
  The state after \<^verbatim>\<open>state.processed_shortcodes.append(post.shortcode)\<close>.
\<close>

definition appended :: "ProgressState \<Rightarrow> VideoPost \<Rightarrow> ProgressState" where
  "appended st post = st\<lparr>processed_shortcodes := processed_shortcodes st @ [shortcode post]\<rparr>"

text \<open>
  The shortcodes appended to the ledger, in the order of the appends.
\<close>

fun appended_ids :: "event list \<Rightarrow> string list" where
  "appended_ids [] = []"
| "appended_ids (EvLedgerAppend sc # evs) = sc # appended_ids evs"
| "appended_ids (ev # evs) = appended_ids evs"

text \<open>
  The lines written to a results file, in the order of the writes.
\<close>

fun sink_lines :: "event list \<Rightarrow> VideoResult list" where
  "sink_lines [] = []"
| "sink_lines (EvSink p r # evs) = r # sink_lines evs"
| "sink_lines (ev # evs) = sink_lines evs"

text \<open>
  The events of the driver among the events of a run.
\<close>

definition driver_events :: "event list \<Rightarrow> event list" where
  "driver_events evs = filter is_driver_event evs"

text \<open>
  The events of the driver are well committed for the results file \<open>rf\<close> when they
  are made of pairs (a line written to \<open>rf\<close> for a result without error, directly
  followed by the append of the shortcode of that result to the ledger) and of rewrites
  of the progress file.  So a shortcode is appended only directly after the write of its
  sink line, and every sink line written is followed by the append.
\<close>

fun well_committed :: "string \<Rightarrow> event list \<Rightarrow> bool" where
  "well_committed rf [] = True"
| "well_committed rf (EvSink p r # EvLedgerAppend sc # evs) =
     (p = rf \<and> result_shortcode r = sc \<and> \<not> has_error r \<and> well_committed rf evs)"
| "well_committed rf (EvSave p st # evs) = well_committed rf evs"
| "well_committed rf (ev # evs) = False"

text \<open>
  The events that \<open>m'\<close> has after those of \<open>m\<close>.
\<close>

definition events_since :: "'e machine \<Rightarrow> 'e machine \<Rightarrow> event list" where
  "events_since m m' = drop (length (trace m)) (trace m')"

text \<open>What one turn of the loop does to the ledger, the sink and the progress file.\<close>

definition commit_step ::
  "string \<Rightarrow> string \<Rightarrow> VideoPost \<Rightarrow> ProgressState \<Rightarrow> 'e machine \<Rightarrow> event list
     \<Rightarrow> ProgressState \<Rightarrow> 'e machine \<Rightarrow> bool" where
  "commit_step rf dir post st m D st' m' \<longleftrightarrow>
     (D = [] \<and> st' = st \<and> jsonl m' = jsonl m \<and> progress_files m' = progress_files m) \<or>
     (\<exists>r. \<not> has_error r \<and> result_shortcode r = shortcode post \<and> st' = appended st post \<and>
        jsonl m' = (jsonl m)(rf \<mapsto> file_lines m rf @ [r]) \<and>
        ((D = [EvSink rf r, EvLedgerAppend (shortcode post)] \<and>
          progress_files m' = progress_files m) \<or>
         (D = [EvSink rf r, EvLedgerAppend (shortcode post),
               EvSave (get_progress_file (state_profile st) dir) (appended st post)] \<and>
          progress_files m' =
            (progress_files m)(get_progress_file (state_profile st) dir \<mapsto> Valid (appended st post)))))"

text \<open>
  What the processing of a list of posts does, with \<open>evs\<close> its events: the driver's
  events are well committed; the ledger in memory grows by the shortcodes appended,
  which are shortcodes of the posts and the shortcodes of the sink lines written, none
  of which has an error; the results file \<open>rf\<close> grows by these lines and no other
  results file changes; the analyzer is called for a subsequence of the posts; a
  progress file is as before, or it is the progress file of the profile and holds the
  ledger at the time of one of the appends.
\<close>

definition batch_effect ::
  "string \<Rightarrow> string \<Rightarrow> VideoPost list \<Rightarrow> ProgressState \<Rightarrow> 'e machine \<Rightarrow> event list
     \<Rightarrow> ProgressState \<Rightarrow> 'e machine \<Rightarrow> bool" where
  "batch_effect rf dir posts st m evs st' m' \<longleftrightarrow>
     well_committed rf (driver_events evs) \<and>
     processed_shortcodes st' = processed_shortcodes st @ appended_ids evs \<and>
     state_profile st' = state_profile st \<and> results_file st' = results_file st \<and>
     file_lines m' rf = file_lines m rf @ sink_lines evs \<and>
     (\<forall>p. p \<noteq> rf \<longrightarrow> jsonl m' p = jsonl m p) \<and>
     set (appended_ids evs) \<subseteq> shortcode ` set posts \<and>
     map result_shortcode (sink_lines evs) = appended_ids evs \<and>
     list_all (\<lambda>r. \<not> has_error r) (sink_lines evs) \<and>
     subseq (analyze_calls evs) (map shortcode posts) \<and>
     (\<forall>q. progress_files m' q = progress_files m q \<or>
          (\<exists>s zs ys. progress_files m' q = Some (Valid s) \<and>
             q = get_progress_file (state_profile st) dir \<and>
             state_profile s = state_profile st \<and> results_file s = results_file st \<and>
             processed_shortcodes s = processed_shortcodes st @ zs \<and>
             appended_ids evs = zs @ ys))"

text \<open>
  The posts of the input list whose shortcode is not in the ledger, in the order of the
  list: the list comprehension of \<^verbatim>\<open>run_pipeline_from_file\<close>.
\<close>

definition eligible :: "VideoList \<Rightarrow> ProgressState \<Rightarrow> VideoPost list" where
  "eligible video_list st =
     filter (\<lambda>v. shortcode v \<notin> set (processed_shortcodes st)) (videos video_list)"


text \<open>
  Whether the download of a post taken up in the machine \<open>m\<close> returns: the temporary
  file is created and \<^verbatim>\<open>download_video\<close>, with its retries, returns the path.
\<close>

definition download_returns :: "'e env \<Rightarrow> VideoPost \<Rightarrow> 'e machine \<Rightarrow> bool" where
  "download_returns env post m =
     (case call (named_temporary_file env) m of
        (Inl e, m0) \<Rightarrow> False
      | (Inr video_path, m0) \<Rightarrow>
          (case download_video env (video_url post) video_path
                  (log_event (EvProcessing (shortcode post))
                     (m0\<lparr>files := insert video_path (files m0)\<rparr>)) of
             (Inl e, m1) \<Rightarrow> False
           | (Inr p, m1) \<Rightarrow> True))"


text \<open>
  The posts the loop takes up, in the order it takes them up, each with the variables of
  the loop at that point: the posts of the list, up to and including one whose turn ends
  the loop with an exception.
\<close>

fun loop_states ::
  "'e env \<Rightarrow> string \<Rightarrow> string \<Rightarrow> VideoPost list \<Rightarrow> 'e loop_state
     \<Rightarrow> (VideoPost \<times> 'e loop_state) list" where
  "loop_states env output_dir rf [] l = []"
| "loop_states env output_dir rf (post # rest) l =
     (post, l) # (case loop_body env output_dir rf post l of
                    (Some e, l') \<Rightarrow> []
                  | (None, l') \<Rightarrow> loop_states env output_dir rf rest l')"

text \<open>
  The posts a run of \<^verbatim>\<open>run_pipeline_from_file\<close> takes up, each with the variables of the
  loop at that point; none when the construction of the components raises.
\<close>

definition run_items ::
  "'e env \<Rightarrow> VideoList \<Rightarrow> string \<Rightarrow> int option \<Rightarrow> 'e machine
     \<Rightarrow> (VideoPost \<times> 'e loop_state) list" where
  "run_items env video_list output_dir max_videos m =
     (let st = load_progress (profile video_list) output_dir m in
      case call (init_components env) m of
        (Inl e, m') \<Rightarrow> []
      | (Inr u, m') \<Rightarrow>
          loop_states env output_dir (results_file st)
            (videos_to_process video_list st max_videos)
            \<lparr>mach = m', state = st, processed_count = 0, error_count = 0\<rparr>)"

text \<open>
  The shortcodes of the posts taken up whose download returns, and the records of the
  posts taken up that get one.
\<close>

definition downloaded :: "'e env \<Rightarrow> (VideoPost \<times> 'e loop_state) list \<Rightarrow> string list" where
  "downloaded env items =
     map (\<lambda>(p, l0). shortcode p) (filter (\<lambda>(p, l0). download_returns env p (mach l0)) items)"


section \<open>Concrete machines and collaborators\<close>

text \<open>
  A machine with nothing on disk, and collaborators whose state is a counter of the
  network calls made.  With \<open>quiet_env\<close> every call succeeds.
\<close>

definition machine0 :: "nat machine" where
  "machine0 = \<lparr>ext = 0, files = {}, trace = [], jsonl = Map.empty, progress_files = Map.empty\<rparr>"

definition analysis0 :: ExerciseAnalysis where
  "analysis0 =
     \<lparr>muscle_group = ''back'', machine = ''lat pulldown'', wrong_way = ''momentum'',
      correct_way = ''controlled'', exercise_trainer_insights = ''squeeze''\<rparr>"

definition insights0 :: GeneralInsights where
  "insights0 = \<lparr>trainer_insights = ''rest'', video_type = ''advice''\<rparr>"

definition quiet_env :: "nat env" where
  "quiet_env =
     \<lparr>uniform = (\<lambda>s. (1, s)),
      urlretrieve = (\<lambda>u p s. (Inr (), s)),
      named_temporary_file = (\<lambda>s. (Inr ''/tmp/v.mp4'', s)),
      init_components = (\<lambda>s. (Inr (), s)),
      upload_video = (\<lambda>p s. (Inr ''files/1'', s)),
      analyze_with_schema = (\<lambda>f sch s. (Inr ''{}'', s)),
      validate_exercise = (\<lambda>t. Inr analysis0),
      validate_general = (\<lambda>t. Inr insights0),
      files_delete = (\<lambda>f s. (Inr (), s)),
      write_fault = (\<lambda>p s. (None, s)),
      future_repr = (\<lambda>e. ''<Future at 0x7f3a state=finished raised Exception>'')\<rparr>"

text \<open>An operation that fails twice with a connection error and then succeeds.\<close>

definition flaky_op :: "nat machine \<Rightarrow> (exn + string) \<times> nat machine" where
  "flaky_op m =
     (if ext m < 2 then (Inl (ConnectionException ''reset''), m\<lparr>ext := ext m + 1\<rparr>)
      else (Inr ''profile'', m\<lparr>ext := ext m + 1\<rparr>))"

definition post_A :: VideoPost where
  "post_A = \<lparr>shortcode = ''A'', url = ''https://www.instagram.com/p/A/'',
             video_url = ''https://cdn/a.mp4'', caption = None\<rparr>"

definition post_B :: VideoPost where
  "post_B = \<lparr>shortcode = ''B'', url = ''https://www.instagram.com/p/B/'',
             video_url = ''https://cdn/b.mp4'', caption = Some ''legs''\<rparr>"

definition videos_AB :: VideoList where
  "videos_AB = \<lparr>profile = ''gym'', videos = [post_A, post_B]\<rparr>"

text \<open>Collaborators whose network is down, and collaborators whose upload fails.\<close>

definition no_network_env :: "nat env" where
  "no_network_env = quiet_env\<lparr>urlretrieve := (\<lambda>u p s. (Inl (OtherException ''timed out''), s))\<rparr>"


text \<open>A network that fails at the first call and works from the second on.\<close>

definition flaky_network_env :: "nat env" where
  "flaky_network_env =
     quiet_env\<lparr>urlretrieve :=
       (\<lambda>u p s. (if fst s = 0 then Inl (OtherException ''timed out'') else Inr (), (Suc (fst s), snd s)))\<rparr>"

text \<open>A machine whose progress file for the profile \<open>gym\<close> does not parse.\<close>

definition machine_corrupt :: "nat machine" where
  "machine_corrupt = machine0\<lparr>progress_files := [''out/.progress_gym.json'' \<mapsto> Corrupt ''Expecting value'']\<rparr>"

text \<open>The variables of the loop at the start of a first run for the profile \<open>gym\<close>.\<close>

definition loop0 :: "nat loop_state" where
  "loop0 = \<lparr>mach = machine0, state = fresh_state ''gym'' ''out'',
            processed_count = 0, error_count = 0\<rparr>"



definition post_C :: VideoPost where
  "post_C = \<lparr>shortcode = ''C'', url = ''https://www.instagram.com/p/C/'',
             video_url = ''https://cdn/c.mp4'', caption = None\<rparr>"





text \<open>
  Collaborators that fail by name: the download of \<open>a.mp4\<close> times out and that of
  \<open>c.mp4\<close> is interrupted by the user; the upload of \<open>/tmp/v.mp4\<close> is given up after its
  retries and that of \<open>/tmp/w.mp4\<close> is interrupted; every analysis request raises.
\<close>

definition mixed_env :: "nat env" where
  "mixed_env =
     quiet_env\<lparr>
       urlretrieve :=
         (\<lambda>u p s. (if u = ''https://cdn/a.mp4'' then Inl (OtherException ''timed out'')
                    else if u = ''https://cdn/c.mp4'' then Inl KeyboardInterrupt
                    else Inr (), s)),
       upload_video :=
         (\<lambda>p s. (if p = ''/tmp/v.mp4'' then Inl (RetryError (OtherException ''quota''))
                  else if p = ''/tmp/w.mp4'' then Inl KeyboardInterrupt
                  else Inr ''files/1'', s)),
       analyze_with_schema :=
         (\<lambda>f sch s. (if sch = ExerciseSchema then Inl (OtherException ''blocked'')
                      else Inl (OtherException ''unavailable''), s))\<rparr>"

section \<open>How each layer extends the trace\<close>

lemma extends_by_refl: "extends_by P m m"
  by (simp add: extends_by_def)

lemma extends_by_trans:
  assumes "extends_by P m m1" and "extends_by P m1 m2"
  shows "extends_by P m m2"
proof -
  obtain a where a: "trace m1 = trace m @ a" "list_all P a"
    using assms(1) by (auto simp: extends_by_def)
  obtain b where b: "trace m2 = trace m1 @ b" "list_all P b"
    using assms(2) by (auto simp: extends_by_def)
  have "trace m2 = trace m @ (a @ b)" "list_all P (a @ b)"
    using a b by simp_all
  then show ?thesis
    using assms unfolding extends_by_def by metis
qed

lemma call_keeps:
  assumes "call f m = (r, m')"
  shows "trace m' = trace m" and "jsonl m' = jsonl m" and "progress_files m' = progress_files m"
  using assms by (auto simp: call_def split: prod.splits)

lemma extends_by_call: "call f m = (r, m') \<Longrightarrow> extends_by P m m'"
  by (simp add: extends_by_def call_keeps)

lemma extends_by_log: "P ev \<Longrightarrow> extends_by P m (log_event ev m)"
  by (simp add: extends_by_def log_event_def)

lemma extends_by_sleep: "P (EvSleep d) \<Longrightarrow> extends_by P m (time_sleep d m)"
  by (simp add: time_sleep_def extends_by_log)

lemma retry_from_extends:
  assumes f: "\<And>m r m'. f m = (r, m') \<Longrightarrow> extends_by P m m'"
    and sl: "\<And>d. P (EvSleep d)"
  shows "retry_from pol f k a m = (r, m') \<Longrightarrow> extends_by P m m'"
proof (induction k arbitrary: a m)
  case 0
  then show ?case
    by (auto split: prod.splits sum.splits if_splits dest: f)
next
  case (Suc k)
  obtain r1 m1 where fm: "f m = (r1, m1)" by (cases "f m")
  have e1: "extends_by P m m1" using fm by (rule f)
  show ?case
  proof (cases r1)
    case (Inr v)
    then show ?thesis using Suc.prems fm e1 by simp
  next
    case (Inl e)
    show ?thesis
    proof (cases "retry_on pol e")
      case True
      then have "retry_from pol f k (Suc a) (time_sleep (wait_exponential pol a) m1) = (r, m')"
        using Suc.prems fm Inl by simp
      then have "extends_by P (time_sleep (wait_exponential pol a) m1) m'"
        by (rule Suc.IH)
      then show ?thesis
        using e1 extends_by_sleep[of P] sl extends_by_trans by blast
    next
      case False
      then show ?thesis using Suc.prems fm Inl e1 by simp
    qed
  qed
qed

lemma sleep_with_jitter_extends: "extends_by is_net_event m (sleep_with_jitter env b m)"
proof -
  obtain j m1 where c: "call (uniform env) m = (j, m1)" by (cases "call (uniform env) m")
  then have "extends_by is_net_event m m1" by (rule extends_by_call)
  moreover have "extends_by is_net_event m1 (time_sleep (b + j) m1)"
    by (rule extends_by_sleep) simp
  ultimately show ?thesis
    using c by (simp add: sleep_with_jitter_def extends_by_trans)
qed

lemma download_attempt_extends:
  assumes "download_attempt env u p m = (r, m')"
  shows "extends_by is_net_event m m'"
proof -
  let ?m1 = "sleep_with_jitter env BASE_DELAY_SECONDS m"
  let ?m2 = "log_event (EvUrlretrieve u p) ?m1"
  obtain r3 m3 where c: "call (urlretrieve env u p) ?m2 = (r3, m3)"
    by (cases "call (urlretrieve env u p) ?m2")
  have "m' = m3" using assms c by (auto simp: download_attempt_def split: sum.splits)
  moreover have "extends_by is_net_event m ?m1" by (rule sleep_with_jitter_extends)
  moreover have "extends_by is_net_event ?m1 ?m2" by (rule extends_by_log) simp
  moreover have "extends_by is_net_event ?m2 m3" using c by (rule extends_by_call)
  ultimately show ?thesis using extends_by_trans by blast
qed

lemma download_video_extends:
  assumes "download_video env u p m = (r, m')"
  shows "extends_by is_net_event m m'"
  using assms unfolding download_video_def retry_def
  by (rule retry_from_extends[rotated 2]) (auto dest: download_attempt_extends)

lemma analyze_calls_append: "analyze_calls (xs @ ys) = analyze_calls xs @ analyze_calls ys"
  by (induction xs rule: analyze_calls.induct) simp_all

lemma analyze_calls_net: "list_all is_net_event evs \<Longrightarrow> analyze_calls evs = []"
  by (induction evs rule: analyze_calls.induct) simp_all

lemma net_not_driver: "list_all is_net_event evs \<Longrightarrow> list_all (\<lambda>ev. \<not> is_driver_event ev) evs"
proof (induction evs)
  case Nil
  then show ?case by simp
next
  case (Cons ev evs)
  then show ?case by (cases ev) simp_all
qed

lemma keeps_refl: "keeps m m"
  by (simp add: keeps_def)

lemma keeps_trans: "keeps m m1 \<Longrightarrow> keeps m1 m2 \<Longrightarrow> keeps m m2"
  by (simp add: keeps_def)

lemma keeps_call: "call f m = (r, m') \<Longrightarrow> keeps m m'"
  by (simp add: keeps_def call_keeps)

lemma try_exercise_schema_keeps:
  assumes "try_exercise_schema env vf sc m = (res, m')"
  shows "keeps m m'" and "res = Inr r \<Longrightarrow> result_shortcode r = sc"
proof -
  obtain r1 m1 where c: "call (analyze_with_schema env vf ExerciseSchema) m = (r1, m1)"
    by (cases "call (analyze_with_schema env vf ExerciseSchema) m")
  have "m' = m1"
    using assms c by (auto simp: try_exercise_schema_def split: sum.splits)
  then show "keeps m m'" using c by (simp add: keeps_call)
  show "res = Inr r \<Longrightarrow> result_shortcode r = sc"
    using assms c by (auto simp: try_exercise_schema_def exercise_result_def split: sum.splits)
qed

lemma try_general_schema_keeps:
  assumes "try_general_schema env vf sc m = (res, m')"
  shows "keeps m m'" and "res = Inr r \<Longrightarrow> result_shortcode r = sc"
proof -
  obtain r1 m1 where c: "call (analyze_with_schema env vf GeneralSchema) m = (r1, m1)"
    by (cases "call (analyze_with_schema env vf GeneralSchema) m")
  have "m' = m1"
    using assms c by (auto simp: try_general_schema_def split: sum.splits)
  then show "keeps m m'" using c by (simp add: keeps_call)
  show "res = Inr r \<Longrightarrow> result_shortcode r = sc"
    using assms c by (auto simp: try_general_schema_def general_result_def split: sum.splits)
qed

lemma delete_video_keeps:
  assumes "delete_video env vf m = (x, m')"
  shows "keeps m m'" and "x = Some e \<Longrightarrow> \<not> is_Exception e"
proof -
  obtain r1 m1 where c: "call (files_delete env vf) m = (r1, m1)"
    by (cases "call (files_delete env vf) m")
  have "m' = m1"
    using assms c by (auto simp: delete_video_def split: sum.splits if_splits)
  then show "keeps m m'" using c by (simp add: keeps_call)
  show "x = Some e \<Longrightarrow> \<not> is_Exception e"
    using assms c by (auto simp: delete_video_def split: sum.splits if_splits)
qed

lemma analyze_unfold:
  "analyze env video_path sc m =
     (case call (upload_video env video_path) (log_event (EvAnalyze video_path sc) m) of
        (Inl e, m1) \<Rightarrow>
          if is_Exception e then (Inr (error_result sc (exn_str (future_repr env) e)), m1) else (Inl e, m1)
      | (Inr video_file, m1) \<Rightarrow> analyze_uploaded env video_file sc m1)"
  by (simp add: analyze_def analyze_uploaded_def split: prod.splits sum.splits)

lemma analyze_uploaded_facts:
  assumes "analyze_uploaded env vf sc m = (res, m')"
  shows "keeps m m'"
    and "res = Inr r \<Longrightarrow> result_shortcode r = sc"
    and "res = Inl e \<Longrightarrow> \<not> is_Exception e"
proof -
  obtain r1 m1 where t1: "try_exercise_schema env vf sc m = (r1, m1)"
    by (cases "try_exercise_schema env vf sc m")
  define step where "step = (case r1 of Inr r \<Rightarrow> (Inr r, m1)
      | Inl e \<Rightarrow> if is_Exception e then try_general_schema env vf sc m1 else (Inl e, m1))"
  obtain r2 m2 where s2: "step = (r2, m2)" by (cases step)
  obtain x m3 where d: "delete_video env vf m2 = (x, m3)" by (cases "delete_video env vf m2")
  have k1: "keeps m m1" using t1 by (rule try_exercise_schema_keeps)
  have k2: "keeps m1 m2"
    using s2 unfolding step_def
    by (auto split: sum.splits if_splits simp: keeps_refl dest: try_general_schema_keeps(1))
  have k3: "keeps m2 m3" using d by (rule delete_video_keeps)
  have sc2: "\<And>r. r2 = Inr r \<Longrightarrow> result_shortcode r = sc"
    using s2 t1 unfolding step_def
    by (auto split: sum.splits if_splits
        dest: try_general_schema_keeps(2) try_exercise_schema_keeps(2))
  have out: "(res, m') = (case x of Some e \<Rightarrow> (Inl e, m3)
      | None \<Rightarrow> (case r2 of Inr r \<Rightarrow> (Inr r, m3)
          | Inl e \<Rightarrow> if is_Exception e then (Inr (error_result sc (exn_str (future_repr env) e)), m3)
                     else (Inl e, m3)))"
    using assms t1 s2 d unfolding analyze_uploaded_def step_def
    by (auto split: sum.splits if_splits option.splits)
  have "m' = m3" using out by (auto split: option.splits sum.splits if_splits)
  then show "keeps m m'" using k1 k2 k3 keeps_trans by blast
  show "res = Inr r \<Longrightarrow> result_shortcode r = sc"
    using out sc2 by (auto split: option.splits sum.splits if_splits simp: error_result_def)
  show "res = Inl e \<Longrightarrow> \<not> is_Exception e"
    using out delete_video_keeps(2)[OF d]
    by (auto split: option.splits sum.splits if_splits)
qed

lemma analyze_facts:
  assumes "analyze env path sc m = (res, m')"
  shows "trace m' = trace m @ [EvAnalyze path sc]"
    and "jsonl m' = jsonl m" and "progress_files m' = progress_files m"
    and "res = Inr r \<Longrightarrow> result_shortcode r = sc"
    and "res = Inl e \<Longrightarrow> \<not> is_Exception e"
proof -
  let ?m0 = "log_event (EvAnalyze path sc) m"
  obtain r1 m1 where c: "call (upload_video env path) ?m0 = (r1, m1)"
    by (cases "call (upload_video env path) ?m0")
  have k1: "keeps ?m0 m1" using c by (rule keeps_call)
  have k2: "keeps m1 m'"
    using assms c unfolding analyze_unfold
    by (auto split: sum.splits if_splits simp: keeps_refl dest: analyze_uploaded_facts(1))
  have k: "keeps ?m0 m'" using k1 k2 by (rule keeps_trans)
  show "trace m' = trace m @ [EvAnalyze path sc]"
    using k by (simp add: keeps_def log_event_def)
  show "jsonl m' = jsonl m" using k by (simp add: keeps_def log_event_def)
  show "progress_files m' = progress_files m" using k by (simp add: keeps_def log_event_def)
  show "res = Inr r \<Longrightarrow> result_shortcode r = sc"
    using assms c unfolding analyze_unfold
    by (auto split: sum.splits if_splits simp: error_result_def dest: analyze_uploaded_facts(2))
  show "res = Inl e \<Longrightarrow> \<not> is_Exception e"
    using assms c unfolding analyze_unfold
    by (auto split: sum.splits if_splits dest: analyze_uploaded_facts(3))
qed

lemma analyze_upload_error:
  assumes "call (upload_video env path) (log_event (EvAnalyze path sc) m) = (Inl e, m1)"
    and "is_Exception e"
  shows "analyze env path sc m = (Inr (error_result sc (exn_str (future_repr env) e)), m1)"
  using assms by (simp add: analyze_def)

lemma process_video_unfold:
  assumes "call (named_temporary_file env) m = (Inr video_path, m0)"
    and "download_video env (video_url post) video_path
           (log_event (EvProcessing (shortcode post)) (m0\<lparr>files := insert video_path (files m0)\<rparr>))
         = (rd, m1)"
  shows "process_video env post m =
     (case rd of
        Inl e \<Rightarrow> (Inl e, if video_path \<in> files m1 then m1\<lparr>files := files m1 - {video_path}\<rparr> else m1)
      | Inr p \<Rightarrow>
          (case analyze env video_path (shortcode post) m1 of
             (res, m2) \<Rightarrow>
               (res, if video_path \<in> files m2 then m2\<lparr>files := files m2 - {video_path}\<rparr> else m2)))"
  using assms by (simp add: process_video_def split: sum.splits prod.splits)

lemma process_video_no_temp:
  assumes "call (named_temporary_file env) m = (Inl e, m0)"
  shows "process_video env post m = (Inl e, m0)"
  using assms by (simp add: process_video_def)

lemma process_video_removes:
  assumes "call (named_temporary_file env) m = (Inr video_path, m0)"
    and "process_video env post m = (res, m')"
  shows "video_path \<notin> files m'"
proof -
  obtain rd m1 where d: "download_video env (video_url post) video_path
           (log_event (EvProcessing (shortcode post)) (m0\<lparr>files := insert video_path (files m0)\<rparr>))
         = (rd, m1)"
    by (cases "download_video env (video_url post) video_path
           (log_event (EvProcessing (shortcode post)) (m0\<lparr>files := insert video_path (files m0)\<rparr>))")
  show ?thesis
    using assms(2) unfolding process_video_unfold[OF assms(1) d]
    by (auto split: sum.splits prod.splits if_splits)
qed

lemma process_video_shape:
  assumes "process_video env post m = (res, m')"
  shows "jsonl m' = jsonl m \<and> progress_files m' = progress_files m \<and>
     (\<forall>r. res = Inr r \<longrightarrow> result_shortcode r = shortcode post) \<and>
     (\<exists>nets. list_all is_net_event nets \<and>
        ((trace m' = trace m \<and> (\<exists>e. res = Inl e)) \<or>
         (trace m' = trace m @ EvProcessing (shortcode post) # nets \<and> (\<exists>e. res = Inl e)) \<or>
         (\<exists>p. trace m' = trace m @ EvProcessing (shortcode post) # nets @ [EvAnalyze p (shortcode post)])))"
proof -
  obtain rt m0 where t: "call (named_temporary_file env) m = (rt, m0)"
    by (cases "call (named_temporary_file env) m")
  show ?thesis
  proof (cases rt)
    case (Inl e)
    then have "process_video env post m = (Inl e, m0)"
      using t by (simp add: process_video_no_temp)
    then have "res = Inl e" "m' = m0" using assms by simp_all
    then show ?thesis
      using call_keeps[OF t] by (intro conjI exI[of _ "[]"]) simp_all
  next
    case (Inr video_path)
    let ?m1 = "log_event (EvProcessing (shortcode post)) (m0\<lparr>files := insert video_path (files m0)\<rparr>)"
    have t': "call (named_temporary_file env) m = (Inr video_path, m0)" using t Inr by simp
    obtain rd m2 where d: "download_video env (video_url post) video_path ?m1 = (rd, m2)"
      by (cases "download_video env (video_url post) video_path ?m1")
    have m1: "trace ?m1 = trace m @ [EvProcessing (shortcode post)]"
        "jsonl ?m1 = jsonl m" "progress_files ?m1 = progress_files m"
      using call_keeps[OF t] by (simp_all add: log_event_def)
    have "extends_by is_net_event ?m1 m2" using d by (rule download_video_extends)
    then obtain nets where nets: "trace m2 = trace ?m1 @ nets" "list_all is_net_event nets"
      and m2: "jsonl m2 = jsonl m" "progress_files m2 = progress_files m"
      using m1 by (auto simp: extends_by_def)
    note pv = assms[unfolded process_video_unfold[OF t' d]]
    show ?thesis
    proof (cases rd)
      case (Inl e)
      then have "res = Inl e" and "trace m' = trace m2" and "jsonl m' = jsonl m2"
        and "progress_files m' = progress_files m2"
        using pv by (auto split: if_splits)
      then show ?thesis
        using nets m1 m2 by (intro conjI exI[of _ nets]) simp_all
    next
      case (Inr p)
      obtain ra m3 where a: "analyze env video_path (shortcode post) m2 = (ra, m3)"
        by (cases "analyze env video_path (shortcode post) m2")
      have "res = ra" and "trace m' = trace m3" and "jsonl m' = jsonl m3"
        and "progress_files m' = progress_files m3"
        using pv Inr a by (auto split: if_splits)
      then show ?thesis
        using nets m1 m2 analyze_facts[OF a]
        by (intro conjI exI[of _ nets]) auto
    qed
  qed
qed

lemma retry_from_first_ok:
  assumes "f m = (Inr v, m')"
  shows "retry_from pol f k a m = (Inr v, m')"
  using assms by (cases k) simp_all

lemma append_result_facts:
  assumes "append_result env r rf m = (x, m')"
  shows "x \<noteq> None \<Longrightarrow> keeps m m'"
    and "x = None \<Longrightarrow> trace m' = trace m @ [EvSink rf r]"
    and "x = None \<Longrightarrow> jsonl m' = (jsonl m)(rf \<mapsto> file_lines m rf @ [r])"
    and "progress_files m' = progress_files m"
proof -
  obtain w m1 where c: "call (write_fault env rf) m = (w, m1)"
    by (cases "call (write_fault env rf) m")
  note k = call_keeps[OF c]
  show "x \<noteq> None \<Longrightarrow> keeps m m'"
    using assms c k by (auto simp: append_result_def keeps_def split: option.splits)
  show "x = None \<Longrightarrow> trace m' = trace m @ [EvSink rf r]"
    using assms c k by (auto simp: append_result_def log_event_def split: option.splits)
  show "x = None \<Longrightarrow> jsonl m' = (jsonl m)(rf \<mapsto> file_lines m rf @ [r])"
    using assms c k by (auto simp: append_result_def log_event_def file_lines_def split: option.splits)
  show "progress_files m' = progress_files m"
    using assms c k by (auto simp: append_result_def log_event_def split: option.splits)
qed

lemma save_progress_facts:
  assumes "save_progress env st dir m = (x, m')"
  shows "x \<noteq> None \<Longrightarrow> keeps m m'"
    and "x = None \<Longrightarrow> trace m' = trace m @ [EvSave (get_progress_file (state_profile st) dir) st]"
    and "x = None \<Longrightarrow>
           progress_files m' = (progress_files m)(get_progress_file (state_profile st) dir \<mapsto> Valid st)"
    and "jsonl m' = jsonl m"
proof -
  let ?pf = "get_progress_file (state_profile st) dir"
  obtain w m1 where c: "call (write_fault env ?pf) m = (w, m1)"
    by (cases "call (write_fault env ?pf) m")
  note k = call_keeps[OF c]
  show "x \<noteq> None \<Longrightarrow> keeps m m'"
    using assms c k by (auto simp: save_progress_def Let_def keeps_def split: option.splits)
  show "x = None \<Longrightarrow> trace m' = trace m @ [EvSave ?pf st]"
    using assms c k by (auto simp: save_progress_def Let_def log_event_def split: option.splits)
  show "x = None \<Longrightarrow> progress_files m' = (progress_files m)(?pf \<mapsto> Valid st)"
    using assms c k by (auto simp: save_progress_def Let_def log_event_def split: option.splits)
  show "jsonl m' = jsonl m"
    using assms c k by (auto simp: save_progress_def Let_def log_event_def split: option.splits)
qed

lemma loop_body_cases [consumes 1, case_names raised failed sink_failed save_failed committed]:
  assumes "loop_body env dir rf post l = (x, l')"
  obtains
    (raised) e m1 where "process_video env post (mach l) = (Inl e, m1)"
      and "(x, l') = on_exception e (l\<lparr>mach := m1\<rparr>)"
  | (failed) r m1 where "process_video env post (mach l) = (Inr r, m1)" and "has_error r"
      and "x = None" and "l' = l\<lparr>mach := m1, error_count := error_count l + 1\<rparr>"
  | (sink_failed) r m1 e m2 where "process_video env post (mach l) = (Inr r, m1)"
      and "\<not> has_error r" and "append_result env r rf m1 = (Some e, m2)"
      and "(x, l') = on_exception e (l\<lparr>mach := m2\<rparr>)"
  | (save_failed) r m1 m2 e m3 where "process_video env post (mach l) = (Inr r, m1)"
      and "\<not> has_error r" and "append_result env r rf m1 = (None, m2)"
      and "save_progress env (appended (state l) post) dir
             (log_event (EvLedgerAppend (shortcode post)) m2) = (Some e, m3)"
      and "(x, l') = on_exception e (l\<lparr>mach := m3, state := appended (state l) post\<rparr>)"
  | (committed) r m1 m2 m3 where "process_video env post (mach l) = (Inr r, m1)"
      and "\<not> has_error r" and "append_result env r rf m1 = (None, m2)"
      and "save_progress env (appended (state l) post) dir
             (log_event (EvLedgerAppend (shortcode post)) m2) = (None, m3)"
      and "x = None"
      and "l' = l\<lparr>mach := m3, state := appended (state l) post,
                   processed_count := processed_count l + 1\<rparr>"
proof -
  obtain out m1 where pv: "process_video env post (mach l) = (out, m1)"
    by (cases "process_video env post (mach l)")
  show thesis
  proof (cases out)
    case (Inl e)
    then show thesis using assms pv raised by (simp add: loop_body_def)
  next
    case (Inr r)
    show thesis
    proof (cases "has_error r")
      case True
      then show thesis using assms pv Inr failed by (simp add: loop_body_def)
    next
      case False
      obtain y m2 where ar: "append_result env r rf m1 = (y, m2)"
        by (cases "append_result env r rf m1")
      show thesis
      proof (cases y)
        case (Some e)
        then show thesis
          using assms pv Inr False ar sink_failed by (simp add: loop_body_def)
      next
        case None
        obtain z m3 where sp: "save_progress env (appended (state l) post) dir
             (log_event (EvLedgerAppend (shortcode post)) m2) = (z, m3)"
          by (cases "save_progress env (appended (state l) post) dir
             (log_event (EvLedgerAppend (shortcode post)) m2)")
        show thesis
        proof (cases z)
          case (Some e)
          then show thesis
            using assms pv Inr False ar None sp save_failed[of r m1 m2 e m3]
            by (simp add: loop_body_def appended_def)
        next
          case None': None
          then show thesis
            using assms pv Inr False ar None sp committed[of r m1 m2 m3]
            by (simp add: loop_body_def appended_def)
        qed
      qed
    qed
  qed
qed

lemma on_exception_facts:
  assumes "(x, l') = on_exception e l"
  shows "mach l' = mach l" and "state l' = state l"
    and "x = Some e' \<Longrightarrow> \<not> is_Exception e'"
    and "x = None \<Longrightarrow> processed_count l' + error_count l' = processed_count l + error_count l + 1"
  using assms by (auto simp: on_exception_def split: if_splits)

lemma loop_body_stops:
  assumes "loop_body env dir rf post l = (Some e, l')"
  shows "\<not> is_Exception e"
  using assms by (cases rule: loop_body_cases) (auto dest: on_exception_facts(3))

lemma loop_body_counts:
  assumes "loop_body env dir rf post l = (None, l')"
  shows "processed_count l' + error_count l' = processed_count l + error_count l + 1"
  using assms
  by (cases rule: loop_body_cases) (auto dest!: on_exception_facts(4))

lemma events_since_append: "trace m' = trace m @ evs \<Longrightarrow> events_since m m' = evs"
  by (simp add: events_since_def)

lemma appended_ids_append: "appended_ids (xs @ ys) = appended_ids xs @ appended_ids ys"
  by (induction xs rule: appended_ids.induct) simp_all

lemma sink_lines_append: "sink_lines (xs @ ys) = sink_lines xs @ sink_lines ys"
  by (induction xs rule: sink_lines.induct) simp_all

lemma driver_events_append: "driver_events (xs @ ys) = driver_events xs @ driver_events ys"
  by (simp add: driver_events_def)

lemma well_committed_append:
  "well_committed rf xs \<Longrightarrow> well_committed rf ys \<Longrightarrow> well_committed rf (xs @ ys)"
  by (induction rf xs rule: well_committed.induct) simp_all

lemma quiet_projections:
  assumes "list_all (\<lambda>ev. \<not> is_driver_event ev) evs"
  shows "driver_events evs = []" and "appended_ids evs = []" and "sink_lines evs = []"
proof -
  show "driver_events evs = []"
    using assms by (induction evs) (simp_all add: driver_events_def)
  show "appended_ids evs = []"
    using assms by (induction evs rule: appended_ids.induct) simp_all
  show "sink_lines evs = []"
    using assms by (induction evs rule: sink_lines.induct) simp_all
qed

lemma loop_body_effect:
  assumes "loop_body env dir rf post l = (x, l')"
  shows "\<exists>pv D. trace (mach l') = trace (mach l) @ pv @ D \<and>
           trace (snd (process_video env post (mach l))) = trace (mach l) @ pv \<and>
           list_all (\<lambda>ev. \<not> is_driver_event ev) pv \<and>
           (analyze_calls pv = [] \<or> analyze_calls pv = [shortcode post]) \<and>
           commit_step rf dir post (state l) (mach l) D (state l') (mach l')"
proof -
  obtain out m1 where pv: "process_video env post (mach l) = (out, m1)"
    by (cases "process_video env post (mach l)")
  from process_video_shape[OF pv]
  obtain nets where j1: "jsonl m1 = jsonl (mach l)" and p1: "progress_files m1 = progress_files (mach l)"
    and sc: "\<And>r. out = Inr r \<Longrightarrow> result_shortcode r = shortcode post"
    and nets: "list_all is_net_event nets"
    and sh: "trace m1 = trace (mach l) \<or>
         trace m1 = trace (mach l) @ EvProcessing (shortcode post) # nets \<or>
         (\<exists>p. trace m1 = trace (mach l) @ EvProcessing (shortcode post) # nets @ [EvAnalyze p (shortcode post)])"
    by blast
  have nd: "list_all (\<lambda>ev. \<not> is_driver_event ev) nets" using nets by (rule net_not_driver)
  have an: "analyze_calls nets = []" using nets by (rule analyze_calls_net)
  obtain pvs where t1: "trace m1 = trace (mach l) @ pvs"
    and q1: "list_all (\<lambda>ev. \<not> is_driver_event ev) pvs"
    and a1: "analyze_calls pvs = [] \<or> analyze_calls pvs = [shortcode post]"
  proof -
    consider "trace m1 = trace (mach l)"
      | "trace m1 = trace (mach l) @ EvProcessing (shortcode post) # nets"
      | p where "trace m1 = trace (mach l) @ EvProcessing (shortcode post) # nets @ [EvAnalyze p (shortcode post)]"
      using sh by blast
    then show thesis
    proof cases
      case 1
      then show ?thesis using that[of "[]"] by simp
    next
      case 2
      then show ?thesis
        using that[of "EvProcessing (shortcode post) # nets"] nd an by simp
    next
      case 3
      then show ?thesis
        using that[of "EvProcessing (shortcode post) # nets @ [EvAnalyze p (shortcode post)]"] nd an
        by (simp add: analyze_calls_append)
    qed
  qed
  have tp: "trace (snd (process_video env post (mach l))) = trace (mach l) @ pvs"
    using pv t1 by simp
  have same: "\<And>m2. keeps m1 m2 \<Longrightarrow>
      trace m2 = trace (mach l) @ pvs @ [] \<and> jsonl m2 = jsonl (mach l) \<and>
      progress_files m2 = progress_files (mach l)"
    using t1 j1 p1 by (simp add: keeps_def)
  show ?thesis
    using assms
  proof (cases rule: loop_body_cases)
    case (raised e m1')
    then have "m1' = m1" using pv by simp
    then have "mach l' = m1" "state l' = state l"
      using on_exception_facts(1,2)[OF raised(2)] by simp_all
    then show ?thesis
      using same[OF keeps_refl] q1 a1 tp
      by (intro exI[of _ pvs] exI[of _ "[]"]) (simp add: commit_step_def)
  next
    case (failed r m1')
    then have "mach l' = m1" "state l' = state l" using pv by simp_all
    then show ?thesis
      using same[OF keeps_refl] q1 a1 tp
      by (intro exI[of _ pvs] exI[of _ "[]"]) (simp add: commit_step_def)
  next
    case (sink_failed r m1' e m2)
    then have "m1' = m1" using pv by simp
    then have "keeps m1 m2" using append_result_facts(1)[OF sink_failed(3)] by simp
    moreover have "mach l' = m2" "state l' = state l"
      using on_exception_facts(1,2)[OF sink_failed(4)] by simp_all
    ultimately show ?thesis
      using same[of m2] q1 a1 tp
      by (intro exI[of _ pvs] exI[of _ "[]"]) (simp add: commit_step_def)
  next
    case (save_failed r m1' m2 e m3)
    then have eq: "m1' = m1" "out = Inr r" using pv by simp_all
    let ?sc = "shortcode post"
    have t2: "trace m2 = trace m1 @ [EvSink rf r]"
      and j2: "jsonl m2 = (jsonl m1)(rf \<mapsto> file_lines m1 rf @ [r])"
      and p2: "progress_files m2 = progress_files m1"
      using append_result_facts[OF save_failed(3)] eq by simp_all
    have k3: "keeps (log_event (EvLedgerAppend ?sc) m2) m3"
      using save_progress_facts(1)[OF save_failed(4)] by simp
    have l': "mach l' = m3" "state l' = appended (state l) post"
      using on_exception_facts(1,2)[OF save_failed(5)] by simp_all
    have fl: "file_lines m1 rf = file_lines (mach l) rf" using j1 by (simp add: file_lines_def)
    have "trace m3 = trace (mach l) @ pvs @ [EvSink rf r, EvLedgerAppend ?sc]"
      using k3 t2 t1 by (simp add: keeps_def log_event_def)
    moreover have "jsonl m3 = (jsonl (mach l))(rf \<mapsto> file_lines (mach l) rf @ [r])"
      using k3 j2 j1 fl by (simp add: keeps_def log_event_def)
    moreover have "progress_files m3 = progress_files (mach l)"
      using k3 p2 p1 by (simp add: keeps_def log_event_def)
    ultimately show ?thesis
      using l' q1 a1 tp save_failed(2) sc[OF eq(2)]
      by (intro exI[of _ pvs] exI[of _ "[EvSink rf r, EvLedgerAppend ?sc]"])
         (auto simp: commit_step_def)
  next
    case (committed r m1' m2 m3)
    then have eq: "m1' = m1" "out = Inr r" using pv by simp_all
    let ?sc = "shortcode post"
    let ?pf = "get_progress_file (state_profile (appended (state l) post)) dir"
    have pf: "?pf = get_progress_file (state_profile (state l)) dir" by (simp add: appended_def)
    have t2: "trace m2 = trace m1 @ [EvSink rf r]"
      and j2: "jsonl m2 = (jsonl m1)(rf \<mapsto> file_lines m1 rf @ [r])"
      and p2: "progress_files m2 = progress_files m1"
      using append_result_facts[OF committed(3)] eq by simp_all
    have t3: "trace m3 = trace (log_event (EvLedgerAppend ?sc) m2) @ [EvSave ?pf (appended (state l) post)]"
      and p3: "progress_files m3 = (progress_files (log_event (EvLedgerAppend ?sc) m2))(?pf \<mapsto> Valid (appended (state l) post))"
      and j3: "jsonl m3 = jsonl (log_event (EvLedgerAppend ?sc) m2)"
      using save_progress_facts[OF committed(4)] by simp_all
    have l': "mach l' = m3" "state l' = appended (state l) post"
      using committed(6) by simp_all
    have fl: "file_lines m1 rf = file_lines (mach l) rf" using j1 by (simp add: file_lines_def)
    have "trace m3 = trace (mach l) @ pvs @
        [EvSink rf r, EvLedgerAppend ?sc,
         EvSave (get_progress_file (state_profile (state l)) dir) (appended (state l) post)]"
      using t3 t2 t1 pf by (simp add: log_event_def)
    moreover have "jsonl m3 = (jsonl (mach l))(rf \<mapsto> file_lines (mach l) rf @ [r])"
      using j3 j2 j1 fl by (simp add: log_event_def)
    moreover have "progress_files m3 =
        (progress_files (mach l))(get_progress_file (state_profile (state l)) dir \<mapsto> Valid (appended (state l) post))"
      using p3 p2 p1 pf by (simp add: log_event_def)
    ultimately show ?thesis
      using l' q1 a1 tp committed(2) sc[OF eq(2)]
      by (intro exI[of _ pvs] exI[of _ "[EvSink rf r, EvLedgerAppend ?sc,
         EvSave (get_progress_file (state_profile (state l)) dir) (appended (state l) post)]"])
         (auto simp: commit_step_def)
  qed
qed

lemma batch_effect_empty: "batch_effect rf dir posts st m [] st m"
  by (simp add: batch_effect_def driver_events_def)

lemma batch_effect_compose:
  assumes a: "batch_effect rf dir ps st m e1 st1 m1"
    and b: "batch_effect rf dir qs st1 m1 e2 st' m'"
  shows "batch_effect rf dir (ps @ qs) st m (e1 @ e2) st' m'"
proof -
  have sp: "state_profile st1 = state_profile st" and rs: "results_file st1 = results_file st"
    using a by (simp_all add: batch_effect_def)
  have 1: "well_committed rf (driver_events (e1 @ e2))"
    using a b by (simp add: batch_effect_def driver_events_append well_committed_append)
  have 2: "processed_shortcodes st' = processed_shortcodes st @ appended_ids (e1 @ e2)"
    using a b by (simp add: batch_effect_def appended_ids_append)
  have 3: "state_profile st' = state_profile st \<and> results_file st' = results_file st"
    using a b by (simp add: batch_effect_def)
  have 4: "file_lines m' rf = file_lines m rf @ sink_lines (e1 @ e2)"
    using a b by (simp add: batch_effect_def sink_lines_append)
  have 5: "\<forall>p. p \<noteq> rf \<longrightarrow> jsonl m' p = jsonl m p"
    using a b by (simp add: batch_effect_def)
  have 6: "set (appended_ids (e1 @ e2)) \<subseteq> shortcode ` set (ps @ qs)"
    using a b by (auto simp: batch_effect_def appended_ids_append)
  have 7: "map result_shortcode (sink_lines (e1 @ e2)) = appended_ids (e1 @ e2)"
    using a b by (simp add: batch_effect_def appended_ids_append sink_lines_append)
  have 8: "list_all (\<lambda>r. \<not> has_error r) (sink_lines (e1 @ e2))"
    using a b by (simp add: batch_effect_def sink_lines_append)
  have 9: "subseq (analyze_calls (e1 @ e2)) (map shortcode (ps @ qs))"
    using a b by (simp add: batch_effect_def analyze_calls_append list_emb_append_mono)
  have 10: "progress_files m' q = progress_files m q \<or>
          (\<exists>s zs ys. progress_files m' q = Some (Valid s) \<and>
             q = get_progress_file (state_profile st) dir \<and>
             state_profile s = state_profile st \<and> results_file s = results_file st \<and>
             processed_shortcodes s = processed_shortcodes st @ zs \<and>
             appended_ids (e1 @ e2) = zs @ ys)" for q
  proof -
    have A: "progress_files m1 q = progress_files m q \<or>
          (\<exists>s zs ys. progress_files m1 q = Some (Valid s) \<and>
             q = get_progress_file (state_profile st) dir \<and>
             state_profile s = state_profile st \<and> results_file s = results_file st \<and>
             processed_shortcodes s = processed_shortcodes st @ zs \<and>
             appended_ids e1 = zs @ ys)"
      using a unfolding batch_effect_def by blast
    have B: "progress_files m' q = progress_files m1 q \<or>
          (\<exists>s zs ys. progress_files m' q = Some (Valid s) \<and>
             q = get_progress_file (state_profile st) dir \<and>
             state_profile s = state_profile st \<and> results_file s = results_file st \<and>
             processed_shortcodes s = processed_shortcodes st1 @ zs \<and>
             appended_ids e2 = zs @ ys)"
      using b sp rs unfolding batch_effect_def by metis
    have p1: "processed_shortcodes st1 = processed_shortcodes st @ appended_ids e1"
      using a by (simp add: batch_effect_def)
    from B show ?thesis
    proof
      assume same: "progress_files m' q = progress_files m1 q"
      from A show ?thesis
      proof
        assume "progress_files m1 q = progress_files m q"
        then show ?thesis using same by simp
      next
        assume "\<exists>s zs ys. progress_files m1 q = Some (Valid s) \<and>
             q = get_progress_file (state_profile st) dir \<and>
             state_profile s = state_profile st \<and> results_file s = results_file st \<and>
             processed_shortcodes s = processed_shortcodes st @ zs \<and>
             appended_ids e1 = zs @ ys"
        then obtain s zs ys where "progress_files m1 q = Some (Valid s)"
          "q = get_progress_file (state_profile st) dir"
          "state_profile s = state_profile st" "results_file s = results_file st"
          "processed_shortcodes s = processed_shortcodes st @ zs"
          "appended_ids e1 = zs @ ys" by blast
        then have "progress_files m' q = Some (Valid s) \<and>
             q = get_progress_file (state_profile st) dir \<and>
             state_profile s = state_profile st \<and> results_file s = results_file st \<and>
             processed_shortcodes s = processed_shortcodes st @ zs \<and>
             appended_ids (e1 @ e2) = zs @ (ys @ appended_ids e2)"
          using same by (simp add: appended_ids_append)
        then show ?thesis by blast
      qed
    next
      assume "\<exists>s zs ys. progress_files m' q = Some (Valid s) \<and>
             q = get_progress_file (state_profile st) dir \<and>
             state_profile s = state_profile st \<and> results_file s = results_file st \<and>
             processed_shortcodes s = processed_shortcodes st1 @ zs \<and>
             appended_ids e2 = zs @ ys"
      then obtain s zs ys where "progress_files m' q = Some (Valid s)"
          "q = get_progress_file (state_profile st) dir"
          "state_profile s = state_profile st" "results_file s = results_file st"
          "processed_shortcodes s = processed_shortcodes st1 @ zs"
          "appended_ids e2 = zs @ ys" by blast
      then have "progress_files m' q = Some (Valid s) \<and>
             q = get_progress_file (state_profile st) dir \<and>
             state_profile s = state_profile st \<and> results_file s = results_file st \<and>
             processed_shortcodes s = processed_shortcodes st @ (appended_ids e1 @ zs) \<and>
             appended_ids (e1 @ e2) = (appended_ids e1 @ zs) @ ys"
        using p1 by (simp add: appended_ids_append)
      then show ?thesis by blast
    qed
  qed
  show ?thesis
    unfolding batch_effect_def
    using 1 2 3 4 5 6 7 8 9 10 by blast
qed

lemma commit_step_batch:
  assumes c: "commit_step rf dir post st m D st1 m1"
    and q: "list_all (\<lambda>ev. \<not> is_driver_event ev) pv"
    and an: "analyze_calls pv = [] \<or> analyze_calls pv = [shortcode post]"
  shows "batch_effect rf dir [post] st m (pv @ D) st1 m1"
proof -
  note qp = quiet_projections[OF q]
  have sub: "subseq (analyze_calls pv) [shortcode post]"
    using an by auto
  from c consider
      (none) "D = []" "st1 = st" "jsonl m1 = jsonl m" "progress_files m1 = progress_files m"
    | (unsaved) r where "\<not> has_error r" "result_shortcode r = shortcode post"
        "st1 = appended st post" "jsonl m1 = (jsonl m)(rf \<mapsto> file_lines m rf @ [r])"
        "D = [EvSink rf r, EvLedgerAppend (shortcode post)]"
        "progress_files m1 = progress_files m"
    | (saved) r where "\<not> has_error r" "result_shortcode r = shortcode post"
        "st1 = appended st post" "jsonl m1 = (jsonl m)(rf \<mapsto> file_lines m rf @ [r])"
        "D = [EvSink rf r, EvLedgerAppend (shortcode post),
               EvSave (get_progress_file (state_profile st) dir) (appended st post)]"
        "progress_files m1 =
            (progress_files m)(get_progress_file (state_profile st) dir \<mapsto> Valid (appended st post))"
    unfolding commit_step_def by blast
  then show ?thesis
  proof cases
    case none
    then show ?thesis
      using qp sub
      by (simp add: batch_effect_def driver_events_append appended_ids_append sink_lines_append
          analyze_calls_append file_lines_def)
  next
    case unsaved
    then show ?thesis
      using qp sub
      by (simp add: batch_effect_def driver_events_append appended_ids_append sink_lines_append
          analyze_calls_append file_lines_def driver_events_def appended_def)
  next
    case saved
    have "progress_files m1 q = progress_files m q \<or>
          (\<exists>s zs ys. progress_files m1 q = Some (Valid s) \<and>
             q = get_progress_file (state_profile st) dir \<and>
             state_profile s = state_profile st \<and> results_file s = results_file st \<and>
             processed_shortcodes s = processed_shortcodes st @ zs \<and>
             appended_ids (pv @ D) = zs @ ys)" for q
    proof (cases "q = get_progress_file (state_profile st) dir")
      case True
      have "progress_files m1 q = Some (Valid (appended st post)) \<and>
             q = get_progress_file (state_profile st) dir \<and>
             state_profile (appended st post) = state_profile st \<and>
             results_file (appended st post) = results_file st \<and>
             processed_shortcodes (appended st post) = processed_shortcodes st @ [shortcode post] \<and>
             appended_ids (pv @ D) = [shortcode post] @ []"
        using True saved qp by (simp add: appended_def appended_ids_append)
      then show ?thesis by blast
    next
      case False
      then show ?thesis using saved by simp
    qed
    then show ?thesis
      using saved(1-5) qp sub
      by (simp add: batch_effect_def driver_events_append appended_ids_append sink_lines_append
          analyze_calls_append file_lines_def driver_events_def appended_def)
  qed
qed

lemma process_all_effect:
  assumes "process_all env dir rf posts l = (x, l')"
  shows "\<exists>evs. trace (mach l') = trace (mach l) @ evs \<and>
     batch_effect rf dir posts (state l) (mach l) evs (state l') (mach l')"
  using assms
proof (induction posts arbitrary: l)
  case Nil
  then show ?case using batch_effect_empty by auto
next
  case (Cons post rest)
  obtain y l1 where lb: "loop_body env dir rf post l = (y, l1)"
    by (cases "loop_body env dir rf post l")
  from loop_body_effect[OF lb]
  obtain pv D where t1: "trace (mach l1) = trace (mach l) @ pv @ D"
    and q: "list_all (\<lambda>ev. \<not> is_driver_event ev) pv"
    and an: "analyze_calls pv = [] \<or> analyze_calls pv = [shortcode post]"
    and c: "commit_step rf dir post (state l) (mach l) D (state l1) (mach l1)"
    by blast
  have b1: "batch_effect rf dir [post] (state l) (mach l) (pv @ D) (state l1) (mach l1)"
    using c q an by (rule commit_step_batch)
  show ?case
  proof (cases y)
    case (Some e)
    then have "l' = l1" using Cons.prems lb by simp
    have "batch_effect rf dir ([post] @ rest) (state l) (mach l) ((pv @ D) @ []) (state l1) (mach l1)"
      using b1 batch_effect_empty by (rule batch_effect_compose)
    then show ?thesis
      using t1 \<open>l' = l1\<close> by auto
  next
    case None
    then have "process_all env dir rf rest l1 = (x, l')" using Cons.prems lb by simp
    from Cons.IH[OF this]
    obtain evs where t2: "trace (mach l') = trace (mach l1) @ evs"
      and b2: "batch_effect rf dir rest (state l1) (mach l1) evs (state l') (mach l')"
      by blast
    have "batch_effect rf dir ([post] @ rest) (state l) (mach l) ((pv @ D) @ evs) (state l') (mach l')"
      using b1 b2 by (rule batch_effect_compose)
    moreover have "trace (mach l') = trace (mach l) @ (pv @ D) @ evs"
      using t1 t2 by simp
    ultimately show ?thesis by auto
  qed
qed

section \<open>A whole run\<close>

lemma process_all_counts:
  "process_all env dir rf posts l = (None, l') \<Longrightarrow>
     processed_count l' + error_count l' = processed_count l + error_count l + length posts"
proof (induction posts arbitrary: l)
  case Nil
  then show ?case by simp
next
  case (Cons post rest)
  obtain y l1 where lb: "loop_body env dir rf post l = (y, l1)"
    by (cases "loop_body env dir rf post l")
  show ?case
  proof (cases y)
    case (Some e)
    then show ?thesis using Cons.prems lb by simp
  next
    case None
    then have "process_all env dir rf rest l1 = (None, l')" using Cons.prems lb by simp
    then have "processed_count l' + error_count l' = processed_count l1 + error_count l1 + length rest"
      by (rule Cons.IH)
    moreover have "processed_count l1 + error_count l1 = processed_count l + error_count l + 1"
      using lb None loop_body_counts by blast
    ultimately show ?thesis by simp
  qed
qed

lemma driver_events_no_analyze:
  "list_all is_driver_event D \<Longrightarrow> analyze_calls D = []"
  by (induction D rule: analyze_calls.induct) simp_all

lemma commit_step_driver: "commit_step rf dir post st m D st' m' \<Longrightarrow> list_all is_driver_event D"
  by (auto simp: commit_step_def)

lemma batch_effect_start:
  assumes "jsonl n = jsonl m" and "progress_files n = progress_files m"
  shows "batch_effect rf dir ps st n evs st' m' = batch_effect rf dir ps st m evs st' m'"
  using assms by (simp add: batch_effect_def file_lines_def)

text \<open>The ledger a run starts from, and the posts it sets out to process.\<close>

lemma run_cases:
  assumes "run_pipeline_from_file env video_list dir cap m = (x, l)"
  obtains (init_failed) e m' where "call (init_components env) m = (Inl e, m')"
      and "x = Some e"
      and "l = \<lparr>mach = m', state = load_progress (profile video_list) dir m,
                 processed_count = 0, error_count = 0\<rparr>"
  | (looped) m' where "call (init_components env) m = (Inr (), m')"
      and "process_all env dir (results_file (load_progress (profile video_list) dir m))
             (videos_to_process video_list (load_progress (profile video_list) dir m) cap)
             \<lparr>mach = m', state = load_progress (profile video_list) dir m,
              processed_count = 0, error_count = 0\<rparr> = (x, l)"
proof -
  obtain r m' where c: "call (init_components env) m = (r, m')"
    by (cases "call (init_components env) m")
  show thesis
  proof (cases r)
    case (Inl e)
    then show thesis
      using assms c init_failed by (simp add: run_pipeline_from_file_def Let_def)
  next
    case (Inr u)
    then show thesis
      using assms c looped by (simp add: run_pipeline_from_file_def Let_def)
  qed
qed

lemma run_effect:
  assumes "run_pipeline_from_file env video_list dir cap m = (x, l)"
  shows "\<exists>evs. trace (mach l) = trace m @ evs \<and>
     batch_effect (results_file (load_progress (profile video_list) dir m)) dir
       (videos_to_process video_list (load_progress (profile video_list) dir m) cap)
       (load_progress (profile video_list) dir m) m evs (state l) (mach l)"
  using assms
proof (cases rule: run_cases)
  case (init_failed e m')
  have "batch_effect (results_file (load_progress (profile video_list) dir m)) dir
       (videos_to_process video_list (load_progress (profile video_list) dir m) cap)
       (load_progress (profile video_list) dir m) m [] (load_progress (profile video_list) dir m) m'"
    using call_keeps[OF init_failed(1)]
    by (simp add: batch_effect_def driver_events_def file_lines_def)
  then show ?thesis
    using init_failed(3) call_keeps(1)[OF init_failed(1)] by (intro exI[of _ "[]"]) simp
next
  case (looped m')
  from process_all_effect[OF looped(2)]
  obtain evs where t: "trace (mach l) = trace m' @ evs"
    and b: "batch_effect (results_file (load_progress (profile video_list) dir m)) dir
       (videos_to_process video_list (load_progress (profile video_list) dir m) cap)
       (load_progress (profile video_list) dir m) m' evs (state l) (mach l)"
    by auto
  have "batch_effect (results_file (load_progress (profile video_list) dir m)) dir
       (videos_to_process video_list (load_progress (profile video_list) dir m) cap)
       (load_progress (profile video_list) dir m) m evs (state l) (mach l)"
    using b batch_effect_start[OF call_keeps(2,3)[OF looped(1)]] by blast
  then show ?thesis
    using t call_keeps(1)[OF looped(1)] by (intro exI[of _ evs]) simp
qed

lemma run_counts:
  assumes "run_pipeline_from_file env video_list dir cap m = (None, l)"
  shows "processed_count l + error_count l =
     length (videos_to_process video_list (load_progress (profile video_list) dir m) cap)"
  using assms
proof (cases rule: run_cases)
  case (init_failed e m')
  then show ?thesis by simp
next
  case (looped m')
  then show ?thesis using process_all_counts[OF looped(2)] by simp
qed

section \<open>Resumption\<close>

lemma videos_to_process_None: "videos_to_process video_list st None = eligible video_list st"
  by (simp add: videos_to_process_def eligible_def)





section \<open>The sink and the ledger\<close>

lemma loop_body_sink:
  assumes "loop_body env dir rf post l = (x, l')"
    and "process_video env post (mach l) = (out, m1)"
  shows "jsonl (mach l') = jsonl (mach l) \<or>
     (\<exists>r. out = Inr r \<and> \<not> has_error r \<and>
          jsonl (mach l') = (jsonl (mach l))(rf \<mapsto> file_lines (mach l) rf @ [r]))"
proof -
  have j1: "jsonl m1 = jsonl (mach l)"
    using process_video_shape[OF assms(2)] by simp
  have fl: "file_lines m1 rf = file_lines (mach l) rf" using j1 by (simp add: file_lines_def)
  show ?thesis
    using assms(1)
  proof (cases rule: loop_body_cases)
    case (raised e m1')
    then show ?thesis
      using assms(2) j1 on_exception_facts(1)[OF raised(2)] by simp
  next
    case (failed r m1')
    then show ?thesis using assms(2) j1 by simp
  next
    case (sink_failed r m1' e m2)
    then have "keeps m1 m2"
      using assms(2) append_result_facts(1)[OF sink_failed(3)] by simp
    then show ?thesis
      using j1 on_exception_facts(1)[OF sink_failed(4)] by (simp add: keeps_def)
  next
    case (save_failed r m1' m2 e m3)
    then have eq: "m1' = m1" "out = Inr r" using assms(2) by simp_all
    have "jsonl m2 = (jsonl m1)(rf \<mapsto> file_lines m1 rf @ [r])"
      using append_result_facts(3)[OF save_failed(3)] eq by simp
    moreover have "jsonl m3 = jsonl (log_event (EvLedgerAppend (shortcode post)) m2)"
      using save_progress_facts(4)[OF save_failed(4)] .
    moreover have "mach l' = m3" using on_exception_facts(1)[OF save_failed(5)] by simp
    ultimately show ?thesis
      using eq save_failed(2) j1 fl by (simp add: log_event_def)
  next
    case (committed r m1' m2 m3)
    then have eq: "m1' = m1" "out = Inr r" using assms(2) by simp_all
    have "jsonl m2 = (jsonl m1)(rf \<mapsto> file_lines m1 rf @ [r])"
      using append_result_facts(3)[OF committed(3)] eq by simp
    moreover have "jsonl m3 = jsonl (log_event (EvLedgerAppend (shortcode post)) m2)"
      using save_progress_facts(4)[OF committed(4)] .
    moreover have "mach l' = m3" using committed(6) by simp
    ultimately show ?thesis
      using eq committed(2) j1 fl by (simp add: log_event_def)
  qed
qed







section \<open>Evaluation of concrete runs\<close>

lemmas model_defs = call_def log_event_def time_sleep_def sleep_with_jitter_def download_attempt_def
  download_video_def retry_def download_video_policy_def wait_exponential_def clamp_def
  BASE_DELAY_SECONDS_def process_video_def analyze_def try_exercise_schema_def
  try_general_schema_def delete_video_def exercise_result_def general_result_def
  error_result_def instagram_url_def

lemmas driver_defs = run_pipeline_from_file_def load_progress_def fresh_state_def
  get_progress_file_def get_results_file_def videos_to_process_def slice_to_def loop_body_def
  on_exception_def has_error_def append_result_def save_progress_def file_lines_def Let_def

lemmas fixture_defs = quiet_env_def machine0_def numeral_2_eq_2 post_A_def post_B_def
  videos_AB_def analysis0_def


section \<open>The posts a run takes up\<close>

lemma downloaded_Nil: "downloaded env [] = []"
  by (simp add: downloaded_def)

lemma downloaded_Cons:
  "downloaded env ((p, l0) # items) =
     (if download_returns env p (mach l0) then [shortcode p] else []) @ downloaded env items"
  by (simp add: downloaded_def)



lemma process_video_calls:
  assumes "process_video env post m = (res, m')"
  shows "analyze_calls (trace m') =
     analyze_calls (trace m) @ (if download_returns env post m then [shortcode post] else [])"
proof -
  obtain rt m0 where t: "call (named_temporary_file env) m = (rt, m0)"
    by (cases "call (named_temporary_file env) m")
  show ?thesis
  proof (cases rt)
    case (Inl e)
    then have "process_video env post m = (Inl e, m0)"
      using t by (simp add: process_video_no_temp)
    then have "m' = m0" using assms by simp
    moreover have "\<not> download_returns env post m"
      using t Inl by (simp add: download_returns_def)
    ultimately show ?thesis using call_keeps(1)[OF t] by simp
  next
    case (Inr video_path)
    let ?m1 = "log_event (EvProcessing (shortcode post)) (m0\<lparr>files := insert video_path (files m0)\<rparr>)"
    have t': "call (named_temporary_file env) m = (Inr video_path, m0)" using t Inr by simp
    obtain rd m2 where d: "download_video env (video_url post) video_path ?m1 = (rd, m2)"
      by (cases "download_video env (video_url post) video_path ?m1")
    have m1: "trace ?m1 = trace m @ [EvProcessing (shortcode post)]"
      using call_keeps(1)[OF t] by (simp add: log_event_def)
    have "extends_by is_net_event ?m1 m2" using d by (rule download_video_extends)
    then obtain nets where nets: "trace m2 = trace ?m1 @ nets" "list_all is_net_event nets"
      by (auto simp: extends_by_def)
    have c2: "analyze_calls (trace m2) = analyze_calls (trace m)"
      using nets m1 by (simp add: analyze_calls_append analyze_calls_net)
    note pv = assms[unfolded process_video_unfold[OF t' d]]
    show ?thesis
    proof (cases rd)
      case (Inl e)
      then have "trace m' = trace m2" using pv by (auto split: if_splits)
      moreover have "\<not> download_returns env post m"
        using t' d Inl by (simp add: download_returns_def)
      ultimately show ?thesis using c2 by simp
    next
      case (Inr p)
      obtain ra m3 where a: "analyze env video_path (shortcode post) m2 = (ra, m3)"
        by (cases "analyze env video_path (shortcode post) m2")
      have "trace m' = trace m3" using pv Inr a by (auto split: if_splits)
      moreover have "download_returns env post m"
        using t' d Inr by (simp add: download_returns_def)
      ultimately show ?thesis
        using c2 analyze_facts(1)[OF a] by (simp add: analyze_calls_append)
    qed
  qed
qed


lemma loop_body_calls:
  assumes "loop_body env dir rf post l = (x, l')"
  shows "analyze_calls (trace (mach l')) =
     analyze_calls (trace (mach l)) @
       (if download_returns env post (mach l) then [shortcode post] else [])"
proof -
  from loop_body_effect[OF assms]
  obtain pv D where t: "trace (mach l') = trace (mach l) @ pv @ D"
    and tp: "trace (snd (process_video env post (mach l))) = trace (mach l) @ pv"
    and c: "commit_step rf dir post (state l) (mach l) D (state l') (mach l')"
    by blast
  obtain res m1 where pvr: "process_video env post (mach l) = (res, m1)"
    by (cases "process_video env post (mach l)")
  have "analyze_calls (trace m1) =
     analyze_calls (trace (mach l)) @
       (if download_returns env post (mach l) then [shortcode post] else [])"
    using pvr by (rule process_video_calls)
  moreover have "trace m1 = trace (mach l) @ pv" using tp pvr by simp
  moreover have "analyze_calls D = []"
    using commit_step_driver[OF c] by (rule driver_events_no_analyze)
  ultimately show ?thesis using t by (simp add: analyze_calls_append)
qed



lemma process_all_items:
  "process_all env dir rf posts l = (None, l') \<Longrightarrow>
     map fst (loop_states env dir rf posts l) = posts"
proof (induction posts arbitrary: l)
  case Nil
  then show ?case by simp
next
  case (Cons post rest)
  obtain y l1 where lb: "loop_body env dir rf post l = (y, l1)"
    by (cases "loop_body env dir rf post l")
  show ?case
  proof (cases y)
    case (Some e)
    then show ?thesis using Cons.prems lb by simp
  next
    case None
    then have "process_all env dir rf rest l1 = (None, l')" using Cons.prems lb by simp
    then have "map fst (loop_states env dir rf rest l1) = rest" by (rule Cons.IH)
    then show ?thesis using lb None by simp
  qed
qed

lemma process_all_calls:
  "process_all env dir rf posts l = (x, l') \<Longrightarrow>
     analyze_calls (trace (mach l')) =
       analyze_calls (trace (mach l)) @ downloaded env (loop_states env dir rf posts l)"
proof (induction posts arbitrary: l)
  case Nil
  then show ?case by (simp add: downloaded_Nil)
next
  case (Cons post rest)
  obtain y l1 where lb: "loop_body env dir rf post l = (y, l1)"
    by (cases "loop_body env dir rf post l")
  note c1 = loop_body_calls[OF lb]
  show ?case
  proof (cases y)
    case (Some e)
    then have "l' = l1" using Cons.prems lb by simp
    then show ?thesis using c1 lb Some by (simp add: downloaded_Cons downloaded_Nil)
  next
    case None
    then have "process_all env dir rf rest l1 = (x, l')" using Cons.prems lb by simp
    from Cons.IH[OF this] show ?thesis
      using c1 lb None by (simp add: downloaded_Cons)
  qed
qed


lemma run_items_all:
  assumes "run_pipeline_from_file env video_list dir cap m = (None, l)"
  shows "map fst (run_items env video_list dir cap m) =
     videos_to_process video_list (load_progress (profile video_list) dir m) cap"
  using assms
proof (cases rule: run_cases)
  case (init_failed e m')
  then show ?thesis by simp
next
  case (looped m')
  then show ?thesis
    using process_all_items[OF looped(2)] by (simp add: run_items_def Let_def)
qed

lemma run_calls:
  assumes "run_pipeline_from_file env video_list dir cap m = (x, l)"
  shows "analyze_calls (events_since m (mach l)) =
     downloaded env (run_items env video_list dir cap m)"
proof -
  obtain evs where t: "trace (mach l) = trace m @ evs"
    using run_effect[OF assms] by blast
  have "analyze_calls (trace (mach l)) =
     analyze_calls (trace m) @ downloaded env (run_items env video_list dir cap m)"
    using assms
  proof (cases rule: run_cases)
    case (init_failed e m')
    then show ?thesis
      using call_keeps(1)[OF init_failed(1)]
      by (simp add: run_items_def Let_def downloaded_Nil)
  next
    case (looped m')
    then show ?thesis
      using process_all_calls[OF looped(2)] call_keeps(1)[OF looped(1)]
      by (simp add: run_items_def Let_def)
  qed
  then show ?thesis
    using t by (simp add: events_since_append analyze_calls_append)
qed


lemma downloaded_all:
  "list_all (\<lambda>(p, l0). download_returns env p (mach l0)) items \<Longrightarrow>
     downloaded env items = map shortcode (map fst items)"
  by (induction items) (auto simp: downloaded_Cons downloaded_Nil)

lemma downloaded_subseq: "subseq (downloaded env items) (map shortcode (map fst items))"
  by (induction items) (auto simp: downloaded_Cons downloaded_Nil)

section \<open>Runs with the quiet collaborators\<close>

lemma quiet_download_returns: "download_returns quiet_env post m"
  by (simp add: download_returns_def model_defs quiet_env_def numeral_2_eq_2)

lemma quiet_downloads: "list_all (\<lambda>(p, l0). download_returns quiet_env p (mach l0)) items"
  by (induction items) (auto simp: quiet_download_returns)

lemma quiet_loop_body: "fst (loop_body quiet_env dir rf post l) = None"
  by (simp add: model_defs driver_defs quiet_env_def numeral_2_eq_2)

lemma quiet_process_all: "fst (process_all quiet_env dir rf posts l) = None"
proof (induction posts arbitrary: l)
  case Nil
  then show ?case by simp
next
  case (Cons post rest)
  obtain y l1 where lb: "loop_body quiet_env dir rf post l = (y, l1)"
    by (cases "loop_body quiet_env dir rf post l")
  then have "y = None" using quiet_loop_body[of dir rf post l] by simp
  then show ?case using lb Cons.IH by simp
qed

lemma quiet_run: "fst (run_pipeline_from_file quiet_env video_list dir cap m) = None"
proof -
  obtain r m' where c: "call (init_components quiet_env) m = (r, m')"
    by (cases "call (init_components quiet_env) m")
  then have "r = Inr ()" by (auto simp: call_def quiet_env_def split: prod.splits)
  then show ?thesis
    using c by (simp add: run_pipeline_from_file_def Let_def quiet_process_all)
qed






section \<open>Exceptions of one post\<close>

lemma process_all_stops:
  "process_all env dir rf posts l = (Some e, l') \<Longrightarrow> \<not> is_Exception e"
proof (induction posts arbitrary: l)
  case Nil
  then show ?case by simp
next
  case (Cons post rest)
  obtain y l1 where lb: "loop_body env dir rf post l = (y, l1)"
    by (cases "loop_body env dir rf post l")
  show ?case
  proof (cases y)
    case None
    then show ?thesis using Cons lb by simp
  next
    case (Some e1)
    then have "e = e1" using Cons.prems lb by simp
    then show ?thesis using lb Some loop_body_stops by blast
  qed
qed

lemma loop_body_raised:
  assumes "process_video env post (mach l) = (Inl e, m1)" and "is_Exception e"
  shows "loop_body env dir rf post l = (None, l\<lparr>mach := m1, error_count := error_count l + 1\<rparr>)"
  using assms by (simp add: loop_body_def on_exception_def)

lemma loop_body_error_result:
  assumes "process_video env post (mach l) = (Inr r, m1)" and "has_error r"
  shows "loop_body env dir rf post l = (None, l\<lparr>mach := m1, error_count := error_count l + 1\<rparr>)"
  using assms by (simp add: loop_body_def)

lemma analyze_fallback_error:
  assumes "call (upload_video env path) (log_event (EvAnalyze path sc) m) = (Inr vf, m1)"
    and "try_exercise_schema env vf sc m1 = (Inl e1, m2)" and "is_Exception e1"
    and "try_general_schema env vf sc m2 = (Inl e2, m3)" and "is_Exception e2"
    and "delete_video env vf m3 = (None, m4)"
  shows "analyze env path sc m = (Inr (error_result sc (exn_str (future_repr env) e2)), m4)"
  using assms by (simp add: analyze_def)

text \<open>
  Claim C3, as the spec states it, fails: \<^verbatim>\<open>_process_video\<close> has a \<^verbatim>\<open>finally\<close> clause and
  no \<^verbatim>\<open>except\<close> clause.  With the network down the download raises after its third
  attempt, and the exception leaves \<^verbatim>\<open>_process_video\<close>: no result with an error is
  returned.
\<close>

theorem download_exception_escapes:
  "process_video no_network_env post_A machine0 =
     (Inl (RetryError (OtherException ''timed out'')),
      machine0\<lparr>trace := [EvProcessing ''A'',
         EvSleep 6, EvUrlretrieve ''https://cdn/a.mp4'' ''/tmp/v.mp4'', EvSleep 5,
         EvSleep 6, EvUrlretrieve ''https://cdn/a.mp4'' ''/tmp/v.mp4'', EvSleep 10,
         EvSleep 6, EvUrlretrieve ''https://cdn/a.mp4'' ''/tmp/v.mp4'']\<rparr>)"
  by (simp add: model_defs no_network_env_def quiet_env_def machine0_def numeral_2_eq_2 post_A_def)

text \<open>
  Claim C3, amended.  An exception that the download raises is not caught in
  \<^verbatim>\<open>_process_video\<close>: it leaves \<^verbatim>\<open>_process_video\<close> as it is.  An \<^verbatim>\<open>Exception\<close> that
  leaves \<^verbatim>\<open>_process_video\<close> is caught by the handler of the driver's loop, which counts
  an error, leaves the ledger, the sink and the progress file as they are, and goes on
  with the next post; a result whose error is not empty is counted in the same way and
  the loop goes on.  So the loop ends only after the last post, every post counted once, or with
  an exception that is not an \<^verbatim>\<open>Exception\<close> (a keyboard interrupt).  In \<^verbatim>\<open>analyze\<close>, an
  \<^verbatim>\<open>Exception\<close> raised by the upload, and an \<^verbatim>\<open>Exception\<close> raised by the analysis with the
  general schema that is tried after an \<^verbatim>\<open>Exception\<close> of the analysis with the exercise
  schema, is caught and converted to a result whose error is \<^verbatim>\<open>str\<close> of that exception;
  only an exception that is not an \<^verbatim>\<open>Exception\<close> leaves \<^verbatim>\<open>analyze\<close>.
\<close>

theorem exceptions_stop_at_the_driver:
  "(call (named_temporary_file env) ta = (Inr patha, tb) \<and>
    download_video env (video_url posta) patha
      (log_event (EvProcessing (shortcode posta)) (tb\<lparr>files := insert patha (files tb)\<rparr>)) =
      (Inl ea, tc) \<longrightarrow>
      fst (process_video env posta ta) = Inl ea) \<and>
   (process_video env postb (mach lb) = (Inl eb, mb) \<and> is_Exception eb \<longrightarrow>
      process_all env dirb rfb (postb # restb) lb =
        process_all env dirb rfb restb (lb\<lparr>mach := mb, error_count := error_count lb + 1\<rparr>) \<and>
      jsonl mb = jsonl (mach lb) \<and> progress_files mb = progress_files (mach lb)) \<and>
   (process_video env postc (mach lc) = (Inr rc, mc) \<and> error rc = Some msgc \<and> msgc \<noteq> [] \<longrightarrow>
      process_all env dirc rfc (postc # restc) lc =
        process_all env dirc rfc restc (lc\<lparr>mach := mc, error_count := error_count lc + 1\<rparr>) \<and>
      jsonl mc = jsonl (mach lc) \<and> progress_files mc = progress_files (mach lc)) \<and>
   (process_all env dird rfd postsd ld = (None, ld') \<longrightarrow>
      processed_count ld' + error_count ld' =
        processed_count ld + error_count ld + length postsd) \<and>
   (process_all env dire rfe postse le = (Some ee, le') \<longrightarrow> \<not> is_Exception ee) \<and>
   (call (upload_video env pathf) (log_event (EvAnalyze pathf scf) mf) = (Inl ef, mf') \<and>
    is_Exception ef \<longrightarrow>
      analyze env pathf scf mf = (Inr (error_result scf (exn_str (future_repr env) ef)), mf')) \<and>
   (call (upload_video env pathg) (log_event (EvAnalyze pathg scg) mg) = (Inr vf, ga) \<and>
    try_exercise_schema env vf scg ga = (Inl xa, gb) \<and> is_Exception xa \<and>
    try_general_schema env vf scg gb = (Inl xb, gc) \<and> is_Exception xb \<and>
    delete_video env vf gc = (None, gd) \<longrightarrow>
      analyze env pathg scg mg = (Inr (error_result scg (exn_str (future_repr env) xb)), gd)) \<and>
   (analyze env pathh sch mh = (Inl eh, mh') \<longrightarrow> \<not> is_Exception eh)"
proof (intro conjI impI)
  assume a: "call (named_temporary_file env) ta = (Inr patha, tb) \<and>
    download_video env (video_url posta) patha
      (log_event (EvProcessing (shortcode posta)) (tb\<lparr>files := insert patha (files tb)\<rparr>)) =
      (Inl ea, tc)"
  then show "fst (process_video env posta ta) = Inl ea"
    using process_video_unfold[of env ta patha tb posta "Inl ea" tc] by simp
next
  assume b: "process_video env postb (mach lb) = (Inl eb, mb) \<and> is_Exception eb"
  then show "process_all env dirb rfb (postb # restb) lb =
        process_all env dirb rfb restb (lb\<lparr>mach := mb, error_count := error_count lb + 1\<rparr>)"
    by (simp add: loop_body_raised)
  show "jsonl mb = jsonl (mach lb)" and "progress_files mb = progress_files (mach lb)"
    using b process_video_shape[of env postb "mach lb" "Inl eb" mb] by simp_all
next
  assume c: "process_video env postc (mach lc) = (Inr rc, mc) \<and> error rc = Some msgc \<and> msgc \<noteq> []"
  then have "has_error rc" by (simp add: has_error_def)
  with c show "process_all env dirc rfc (postc # restc) lc =
        process_all env dirc rfc restc (lc\<lparr>mach := mc, error_count := error_count lc + 1\<rparr>)"
    by (simp add: loop_body_error_result)
  show "jsonl mc = jsonl (mach lc)" and "progress_files mc = progress_files (mach lc)"
    using c process_video_shape[of env postc "mach lc" "Inr rc" mc] by simp_all
next
  assume "process_all env dird rfd postsd ld = (None, ld')"
  then show "processed_count ld' + error_count ld' =
      processed_count ld + error_count ld + length postsd"
    by (rule process_all_counts)
next
  assume "process_all env dire rfe postse le = (Some ee, le')"
  then show "\<not> is_Exception ee" by (rule process_all_stops)
next
  assume "call (upload_video env pathf) (log_event (EvAnalyze pathf scf) mf) = (Inl ef, mf') \<and>
    is_Exception ef"
  then show "analyze env pathf scf mf =
      (Inr (error_result scf (exn_str (future_repr env) ef)), mf')"
    by (simp add: analyze_upload_error)
next
  assume "call (upload_video env pathg) (log_event (EvAnalyze pathg scg) mg) = (Inr vf, ga) \<and>
    try_exercise_schema env vf scg ga = (Inl xa, gb) \<and> is_Exception xa \<and>
    try_general_schema env vf scg gb = (Inl xb, gc) \<and> is_Exception xb \<and>
    delete_video env vf gc = (None, gd)"
  then show "analyze env pathg scg mg =
      (Inr (error_result scg (exn_str (future_repr env) xb)), gd)"
    using analyze_fallback_error[of env pathg scg mg vf ga xa gb xb gc gd] by simp
next
  assume "analyze env pathh sch mh = (Inl eh, mh')"
  then show "\<not> is_Exception eh" by (rule analyze_facts(5)) simp
qed

text \<open>
  With the collaborators that fail by name.  The download of A raises after its third
  attempt and the exception leaves \<^verbatim>\<open>_process_video\<close>; the loop counts an error and goes
  on with B, whose upload is given up: \<^verbatim>\<open>analyze\<close> returns a result whose error is the
  text of the \<^verbatim>\<open>RetryError\<close>, the loop counts a second error and ends after B.  The
  interrupt of the download of C ends the loop.  When both analyses raise, the error is
  the message of the second exception.
\<close>

theorem exceptions_stop_at_the_driver_witness:
  "fst (process_video mixed_env post_A machine0) = Inl (RetryError (OtherException ''timed out'')) \<and>
   process_all mixed_env ''out'' ''out/results_gym.jsonl'' [post_A, post_B] loop0 =
     process_all mixed_env ''out'' ''out/results_gym.jsonl'' [post_B]
       (loop0\<lparr>mach := snd (process_video mixed_env post_A machine0), error_count := 1\<rparr>) \<and>
   fst (process_video mixed_env post_B machine0) =
     Inr (error_result ''B'' ''RetryError[<Future at 0x7f3a state=finished raised Exception>]'') \<and>
   process_all mixed_env ''out'' ''out/results_gym.jsonl'' [post_B] loop0 =
     (None, loop0\<lparr>mach := snd (process_video mixed_env post_B machine0), error_count := 1\<rparr>) \<and>
   fst (process_all mixed_env ''out'' ''out/results_gym.jsonl'' [post_A, post_B] loop0) = None \<and>
   error_count (snd (process_all mixed_env ''out'' ''out/results_gym.jsonl'' [post_A, post_B] loop0)) = 2 \<and>
   processed_count (snd (process_all mixed_env ''out'' ''out/results_gym.jsonl'' [post_A, post_B] loop0)) = 0 \<and>
   fst (process_all mixed_env ''out'' ''out/results_gym.jsonl'' [post_B, post_C, post_A] loop0) =
     Some KeyboardInterrupt \<and>
   \<not> is_Exception KeyboardInterrupt \<and>
   fst (analyze mixed_env ''/tmp/v.mp4'' ''B'' machine0) =
     Inr (error_result ''B'' ''RetryError[<Future at 0x7f3a state=finished raised Exception>]'') \<and>
   fst (analyze mixed_env ''/tmp/x.mp4'' ''B'' machine0) = Inr (error_result ''B'' ''unavailable'') \<and>
   fst (analyze mixed_env ''/tmp/w.mp4'' ''B'' machine0) = Inl KeyboardInterrupt"
proof -
  let ?env = mixed_env
  let ?rf = "''out/results_gym.jsonl''"
  let ?eA = "RetryError (OtherException ''timed out'')"
  let ?eU = "RetryError (OtherException ''quota'')"
  let ?rB = "error_result ''B'' ''RetryError[<Future at 0x7f3a state=finished raised Exception>]''"
  let ?mA = "snd (process_video ?env post_A machine0)"
  let ?mB = "snd (process_video ?env post_B machine0)"
  let ?tA = "log_event (EvProcessing (shortcode post_A)) (machine0\<lparr>files := insert ''/tmp/v.mp4'' (files machine0)\<rparr>)"
  let ?dA = "download_video ?env (video_url post_A) ''/tmp/v.mp4'' ?tA"
  let ?ab = "process_all ?env ''out'' ?rf [post_A, post_B] loop0"
  let ?bca = "process_all ?env ''out'' ?rf [post_B, post_C, post_A] loop0"
  let ?mv = "machine0\<lparr>trace := [EvAnalyze ''/tmp/v.mp4'' ''B'']\<rparr>"
  let ?mx = "machine0\<lparr>trace := [EvAnalyze ''/tmp/x.mp4'' ''B'']\<rparr>"
  let ?mw = "machine0\<lparr>trace := [EvAnalyze ''/tmp/w.mp4'' ''B'']\<rparr>"
  note defs = model_defs driver_defs mixed_env_def quiet_env_def machine0_def numeral_2_eq_2
    post_A_def post_B_def post_C_def loop0_def exn_str.simps
  have m0: "mach loop0 = machine0" by (simp add: loop0_def)
  have e0: "error_count loop0 = 0" by (simp add: loop0_def)
  have ha: "call (named_temporary_file ?env) machine0 = (Inr ''/tmp/v.mp4'', machine0)"
    by (simp add: call_def mixed_env_def quiet_env_def machine0_def)
  have hd: "fst ?dA = Inl ?eA"
    by (simp add: defs)
  have pa: "fst (process_video ?env post_A machine0) = Inl ?eA"
    by (simp add: defs)
  have pb: "fst (process_video ?env post_B machine0) = Inr ?rB"
    by (simp add: defs)
  have hb: "error ?rB = Some ''RetryError[<Future at 0x7f3a state=finished raised Exception>]''"
    by (simp add: error_result_def)
  have ab: "fst ?ab = None" and abe: "error_count (snd ?ab) = 2"
    and abp: "processed_count (snd ?ab) = 0"
    by (simp_all add: defs)
  have bca: "fst ?bca = Some KeyboardInterrupt"
    by (simp add: defs)
  have uf: "call (upload_video ?env ''/tmp/v.mp4'') (log_event (EvAnalyze ''/tmp/v.mp4'' ''B'') machine0) =
      (Inl ?eU, ?mv)"
    by (simp add: call_def log_event_def mixed_env_def quiet_env_def machine0_def)
  have ug: "call (upload_video ?env ''/tmp/x.mp4'') (log_event (EvAnalyze ''/tmp/x.mp4'' ''B'') machine0) =
      (Inr ''files/1'', ?mx)"
    by (simp add: call_def log_event_def mixed_env_def quiet_env_def machine0_def)
  have g1: "try_exercise_schema ?env ''files/1'' ''B'' ?mx = (Inl (OtherException ''blocked''), ?mx)"
    by (simp add: try_exercise_schema_def call_def mixed_env_def quiet_env_def machine0_def)
  have g2: "try_general_schema ?env ''files/1'' ''B'' ?mx = (Inl (OtherException ''unavailable''), ?mx)"
    by (simp add: try_general_schema_def call_def mixed_env_def quiet_env_def machine0_def)
  have g3: "delete_video ?env ''files/1'' ?mx = (None, ?mx)"
    by (simp add: delete_video_def call_def mixed_env_def quiet_env_def machine0_def)
  have aw: "analyze ?env ''/tmp/w.mp4'' ''B'' machine0 = (Inl KeyboardInterrupt, ?mw)"
    by (simp add: analyze_def call_def log_event_def mixed_env_def quiet_env_def machine0_def)
  have fr: "exn_str (future_repr ?env) ?eU =
      ''RetryError[<Future at 0x7f3a state=finished raised Exception>]''"
    by (simp add: mixed_env_def quiet_env_def)
  have fx: "exn_str (future_repr ?env) (OtherException ''unavailable'') = ''unavailable''"
    by simp
  have A: "call (named_temporary_file ?env) machine0 = (Inr ''/tmp/v.mp4'', machine0) \<and> ?dA = (Inl ?eA, snd ?dA)"
    using ha hd by (simp add: prod_eq_iff)
  have B: "process_video ?env post_A (mach loop0) = (Inl ?eA, ?mA) \<and> is_Exception ?eA"
    using pa by (simp add: prod_eq_iff m0)
  have C: "process_video ?env post_B (mach loop0) = (Inr ?rB, ?mB) \<and>
      error ?rB = Some ''RetryError[<Future at 0x7f3a state=finished raised Exception>]'' \<and>
      ''RetryError[<Future at 0x7f3a state=finished raised Exception>]'' \<noteq> []"
    using pb hb by (simp add: prod_eq_iff m0)
  have D: "?ab = (None, snd ?ab)"
    using ab by (simp add: prod_eq_iff)
  have E: "?bca = (Some KeyboardInterrupt, snd ?bca)"
    using bca by (simp add: prod_eq_iff)
  have F: "call (upload_video ?env ''/tmp/v.mp4'') (log_event (EvAnalyze ''/tmp/v.mp4'' ''B'') machine0) =
      (Inl ?eU, ?mv) \<and> is_Exception ?eU"
    using uf by simp
  have G: "call (upload_video ?env ''/tmp/x.mp4'') (log_event (EvAnalyze ''/tmp/x.mp4'' ''B'') machine0) =
      (Inr ''files/1'', ?mx) \<and>
    try_exercise_schema ?env ''files/1'' ''B'' ?mx = (Inl (OtherException ''blocked''), ?mx) \<and>
    is_Exception (OtherException ''blocked'') \<and>
    try_general_schema ?env ''files/1'' ''B'' ?mx = (Inl (OtherException ''unavailable''), ?mx) \<and>
    is_Exception (OtherException ''unavailable'') \<and>
    delete_video ?env ''files/1'' ?mx = (None, ?mx)"
    using ug g1 g2 g3 by simp
  note th = exceptions_stop_at_the_driver[where env = ?env
      and ta = machine0 and patha = "''/tmp/v.mp4''" and tb = machine0 and posta = post_A
      and ea = ?eA and tc = "snd ?dA"
      and postb = post_A and lb = loop0 and eb = ?eA and mb = ?mA and dirb = "''out''"
      and rfb = ?rf and restb = "[post_B]"
      and postc = post_B and lc = loop0 and rc = ?rB and mc = ?mB
      and msgc = "''RetryError[<Future at 0x7f3a state=finished raised Exception>]''" and dirc = "''out''"
      and rfc = ?rf and restc = "[]"
      and dird = "''out''" and rfd = ?rf and postsd = "[post_A, post_B]" and ld = loop0
      and ld' = "snd ?ab"
      and dire = "''out''" and rfe = ?rf and postse = "[post_B, post_C, post_A]" and le = loop0
      and ee = KeyboardInterrupt and le' = "snd ?bca"
      and pathf = "''/tmp/v.mp4''" and scf = "''B''" and mf = machine0 and ef = ?eU and mf' = ?mv
      and pathg = "''/tmp/x.mp4''" and scg = "''B''" and mg = machine0 and vf = "''files/1''"
      and ga = ?mx and xa = "OtherException ''blocked''" and gb = ?mx
      and xb = "OtherException ''unavailable''" and gc = ?mx and gd = ?mx
      and pathh = "''/tmp/w.mp4''" and sch = "''B''" and mh = machine0
      and eh = KeyboardInterrupt and mh' = ?mw]
  have c1: "fst (process_video ?env post_A machine0) = Inl ?eA"
    using th A by blast
  have c2: "process_all ?env ''out'' ?rf [post_A, post_B] loop0 =
      process_all ?env ''out'' ?rf [post_B] (loop0\<lparr>mach := ?mA, error_count := error_count loop0 + 1\<rparr>)"
    using th B by blast
  have c3: "process_all ?env ''out'' ?rf [post_B] loop0 =
      process_all ?env ''out'' ?rf [] (loop0\<lparr>mach := ?mB, error_count := error_count loop0 + 1\<rparr>)"
    using th C by blast
  have c4: "processed_count (snd ?ab) + error_count (snd ?ab) =
      processed_count loop0 + error_count loop0 + length [post_A, post_B]"
    using th D by blast
  have c5: "\<not> is_Exception KeyboardInterrupt"
    using th E by blast
  have c6: "analyze ?env ''/tmp/v.mp4'' ''B'' machine0 =
      (Inr (error_result ''B'' (exn_str (future_repr ?env) ?eU)), ?mv)"
    using th F by blast
  have c7: "analyze ?env ''/tmp/x.mp4'' ''B'' machine0 =
      (Inr (error_result ''B'' (exn_str (future_repr ?env) (OtherException ''unavailable''))), ?mx)"
    using th G by blast
  show ?thesis
    using c1 c2 c3 c5 c6 c7 pb ab abe abp bca aw fr fx e0 by simp
qed

section \<open>The sink\<close>




section \<open>The cap, when it is positive\<close>




section \<open>Loading the ledger\<close>

text \<open>
  Claim C6.  When the progress file is missing, or when reading, parsing or validating
  it raises, \<^verbatim>\<open>_load_progress\<close> returns a fresh state with no processed shortcode and
  the results file of the profile; no error leaves it.  The driver then sets out to
  process the whole input list: a run without a cap that ends without an interrupt
  takes up every post of the list, in the order of the list, and counts each once, as
  processed or as an error; it calls the analyzer for each post whose download returns,
  so for every post of the list when every download returns.
\<close>

theorem corrupt_ledger_starts_fresh:
  assumes "progress_files m (get_progress_file (profile video_list) output_dir) = None \<or>
           progress_files m (get_progress_file (profile video_list) output_dir) = Some (Corrupt msg)"
  shows "load_progress (profile video_list) output_dir m =
           \<lparr>state_profile = profile video_list, processed_shortcodes = [],
            results_file = get_results_file (profile video_list) output_dir\<rparr> \<and>
         videos_to_process video_list (load_progress (profile video_list) output_dir m) None =
           videos video_list \<and>
         (run_pipeline_from_file env video_list output_dir None m = (None, l) \<longrightarrow>
            processed_count l + error_count l = length (videos video_list) \<and>
            map fst (run_items env video_list output_dir None m) = videos video_list \<and>
            analyze_calls (events_since m (mach l)) =
              downloaded env (run_items env video_list output_dir None m) \<and>
            (list_all (\<lambda>(p, l0). download_returns env p (mach l0))
               (run_items env video_list output_dir None m) \<longrightarrow>
               analyze_calls (events_since m (mach l)) = map shortcode (videos video_list)))"
proof -
  let ?items = "run_items env video_list output_dir None m"
  have l: "load_progress (profile video_list) output_dir m = fresh_state (profile video_list) output_dir"
    using assms by (auto simp: load_progress_def)
  have v: "videos_to_process video_list (fresh_state (profile video_list) output_dir) None =
      videos video_list"
    by (simp add: videos_to_process_def fresh_state_def)
  have run: "processed_count l + error_count l = length (videos video_list) \<and>
      map fst ?items = videos video_list \<and>
      analyze_calls (events_since m (mach l)) = downloaded env ?items \<and>
      (list_all (\<lambda>(p, l0). download_returns env p (mach l0)) ?items \<longrightarrow>
         analyze_calls (events_since m (mach l)) = map shortcode (videos video_list))"
    if r: "run_pipeline_from_file env video_list output_dir None m = (None, l)"
  proof -
    have n: "processed_count l + error_count l = length (videos video_list)"
      using run_counts[OF r] by (simp add: l v)
    have i: "map fst ?items = videos video_list"
      using run_items_all[OF r] by (simp add: l v)
    have c: "analyze_calls (events_since m (mach l)) = downloaded env ?items"
      using r by (rule run_calls)
    have "analyze_calls (events_since m (mach l)) = map shortcode (videos video_list)"
      if "list_all (\<lambda>(p, l0). download_returns env p (mach l0)) ?items"
    proof -
      have "downloaded env ?items = map shortcode (map fst ?items)"
        using that by (rule downloaded_all)
      then show ?thesis by (simp only: c i)
    qed
    then show ?thesis using n i c by blast
  qed
  have "load_progress (profile video_list) output_dir m =
           \<lparr>state_profile = profile video_list, processed_shortcodes = [],
            results_file = get_results_file (profile video_list) output_dir\<rparr>"
    using l by (simp add: fresh_state_def)
  moreover have "videos_to_process video_list (load_progress (profile video_list) output_dir m) None =
           videos video_list"
    using l v by simp
  ultimately show ?thesis
    using run by blast
qed

text \<open>
  The progress file of the profile does not parse and the list is A, B: the ledger loaded
  is empty, and the run takes up A and B, calls the analyzer for both and commits both.
\<close>

theorem corrupt_ledger_starts_fresh_witness:
  "progress_files machine_corrupt (get_progress_file (profile videos_AB) ''out'') =
     Some (Corrupt ''Expecting value'') \<and>
   load_progress (profile videos_AB) ''out'' machine_corrupt =
     \<lparr>state_profile = ''gym'', processed_shortcodes = [],
      results_file = ''out/results_gym.jsonl''\<rparr> \<and>
   fst (run_pipeline_from_file quiet_env videos_AB ''out'' None machine_corrupt) = None \<and>
   list_all (\<lambda>(p, l0). download_returns quiet_env p (mach l0))
     (run_items quiet_env videos_AB ''out'' None machine_corrupt) \<and>
   map fst (run_items quiet_env videos_AB ''out'' None machine_corrupt) = [post_A, post_B] \<and>
   processed_count (snd (run_pipeline_from_file quiet_env videos_AB ''out'' None machine_corrupt)) +
     error_count (snd (run_pipeline_from_file quiet_env videos_AB ''out'' None machine_corrupt)) = 2 \<and>
   processed_shortcodes (state (snd (run_pipeline_from_file quiet_env videos_AB ''out'' None machine_corrupt))) =
     [''A'', ''B''] \<and>
   analyze_calls (events_since machine_corrupt
     (mach (snd (run_pipeline_from_file quiet_env videos_AB ''out'' None machine_corrupt)))) =
     [''A'', ''B'']"
proof -
  let ?run = "run_pipeline_from_file quiet_env videos_AB ''out'' None machine_corrupt"
  let ?items = "run_items quiet_env videos_AB ''out'' None machine_corrupt"
  have c: "progress_files machine_corrupt (get_progress_file (profile videos_AB) ''out'') =
     Some (Corrupt ''Expecting value'')"
    by (simp add: machine_corrupt_def machine0_def videos_AB_def get_progress_file_def)
  have f: "fst ?run = None"
    by (rule quiet_run)
  have r: "list_all (\<lambda>(p, l0). download_returns quiet_env p (mach l0)) ?items"
    by (rule quiet_downloads)
  have p: "processed_shortcodes (state (snd ?run)) = [''A'', ''B'']"
    by (simp add: model_defs driver_defs machine_corrupt_def fixture_defs)
  have run: "?run = (None, snd ?run)" using f by (simp add: prod_eq_iff)
  note th = corrupt_ledger_starts_fresh[OF disjI2, OF c, of quiet_env "snd ?run"]
  have l: "load_progress (profile videos_AB) ''out'' machine_corrupt =
     \<lparr>state_profile = ''gym'', processed_shortcodes = [],
      results_file = ''out/results_gym.jsonl''\<rparr>"
    using th by (simp add: videos_AB_def get_results_file_def)
  have i: "map fst ?items = videos videos_AB"
    using th run by blast
  have n: "processed_count (snd ?run) + error_count (snd ?run) = length (videos videos_AB)"
    using th run by blast
  have a: "analyze_calls (events_since machine_corrupt (mach (snd ?run))) =
      map shortcode (videos videos_AB)"
    using th run r by blast
  show ?thesis
    using c l f r i n a p by (simp add: videos_AB_def post_A_def post_B_def)
qed

section \<open>The retry wrapper: two failures, then success\<close>

lemma retry_from_twice:
  assumes "f m = (Inl e1, m1)" and "retry_on pol e1"
    and "f (time_sleep (wait_exponential pol a) m1) = (Inl e2, m2)" and "retry_on pol e2"
    and "f (time_sleep (wait_exponential pol (Suc a)) m2) = (Inr v, m3)"
  shows "retry_from pol f (Suc (Suc k)) a m = (Inr v, m3)"
  using assms by (cases k) simp_all

text \<open>
  Claim C7.  An operation under the retry wrapper that fails twice with a retryable
  exception and succeeds at the third attempt: the wrapper returns the value of the
  third attempt, and the machine it leaves is the one reached by the three attempts
  with exactly two sleeps between them, the first of
  \<open>clamp (multiplier * 2 ^ 0) min max\<close> and the second of
  \<open>clamp (multiplier * 2 ^ 1) min max\<close> seconds.  The policy must allow three attempts.
\<close>

theorem retry_twice_then_success:
  assumes "f m = (Inl e1, m1)" and "retry_on pol e1"
    and "f (time_sleep (clamp (wait_multiplier pol * 2 ^ 0) (wait_min pol) (wait_max pol)) m1)
           = (Inl e2, m2)"
    and "retry_on pol e2"
    and "f (time_sleep (clamp (wait_multiplier pol * 2 ^ 1) (wait_min pol) (wait_max pol)) m2)
           = (Inr v, m3)"
    and "3 \<le> stop_after_attempt pol"
  shows "retry pol f m = (Inr v, m3)"
proof -
  have k: "stop_after_attempt pol - 1 = Suc (Suc (stop_after_attempt pol - 3))"
    using assms(6) by arith
  show ?thesis
    unfolding retry_def k
    by (rule retry_from_twice[where ?e1.0 = e1 and ?e2.0 = e2 and ?m1.0 = m1 and ?m2.0 = m2])
       (use assms in \<open>simp_all add: wait_exponential_def\<close>)
qed

text \<open>
  With the policy of \<^verbatim>\<open>_get_profile\<close> (multiplier 60, floor 60, ceiling 300) the two
  sleeps are of 60 and 120 seconds; with the policy of \<^verbatim>\<open>_upload_video\<close> (multiplier 10,
  floor 10, ceiling 120) they are of 10 and 20 seconds.
\<close>

theorem retry_twice_then_success_witness:
  "retry get_profile_policy flaky_op machine0 =
     (Inr ''profile'', machine0\<lparr>ext := 3, trace := [EvSleep 60, EvSleep 120]\<rparr>) \<and>
   retry upload_video_policy flaky_op machine0 =
     (Inr ''profile'', machine0\<lparr>ext := 3, trace := [EvSleep 10, EvSleep 20]\<rparr>)"
  using retry_twice_then_success[of flaky_op machine0 "ConnectionException ''reset''"
     "machine0\<lparr>ext := 1\<rparr>" get_profile_policy "ConnectionException ''reset''"
     "machine0\<lparr>ext := 2, trace := [EvSleep 60]\<rparr>" "''profile''"
     "machine0\<lparr>ext := 3, trace := [EvSleep 60, EvSleep 120]\<rparr>"]
    retry_twice_then_success[of flaky_op machine0 "ConnectionException ''reset''"
     "machine0\<lparr>ext := 1\<rparr>" upload_video_policy "ConnectionException ''reset''"
     "machine0\<lparr>ext := 2, trace := [EvSleep 10]\<rparr>" "''profile''"
     "machine0\<lparr>ext := 3, trace := [EvSleep 10, EvSleep 20]\<rparr>"]
  by (simp add: flaky_op_def machine0_def get_profile_policy_def upload_video_policy_def
        time_sleep_def log_event_def clamp_def)

section \<open>The retry policy of the download\<close>

text \<open>
  Claim C8, as the spec states it, fails: \<^verbatim>\<open>download_video\<close> is decorated with
  \<^verbatim>\<open>retry_if_exception_type(Exception)\<close> and \<^verbatim>\<open>wait_exponential(multiplier=5, min=5,
  max=60)\<close>.  Here the first call of \<^verbatim>\<open>urlretrieve\<close> raises an exception that is neither
  a connection error nor a bad request; the download is attempted again all the same,
  after a backoff of 5 seconds (not 60), and succeeds.
\<close>

theorem download_retries_any_exception:
  "\<not> is_connection_error (OtherException ''timed out'') \<and>
   download_video flaky_network_env ''https://cdn/a.mp4'' ''/tmp/v.mp4'' machine0 =
     (Inr ''/tmp/v.mp4'',
      machine0\<lparr>ext := 2, trace :=
        [EvSleep 6, EvUrlretrieve ''https://cdn/a.mp4'' ''/tmp/v.mp4'', EvSleep 5,
         EvSleep 6, EvUrlretrieve ''https://cdn/a.mp4'' ''/tmp/v.mp4'']\<rparr>)"
  by (simp add: model_defs flaky_network_env_def quiet_env_def machine0_def numeral_2_eq_2)

lemma download_attempt_trace:
  "trace (snd (download_attempt env u p m)) =
     trace m @ [EvSleep (5 + fst (uniform env (ext m, files m))), EvUrlretrieve u p]"
  by (simp add: download_attempt_def sleep_with_jitter_def call_def time_sleep_def log_event_def
      BASE_DELAY_SECONDS_def split: prod.splits sum.splits)

text \<open>
  Claim C8, amended.  The download is wrapped in a broad retry policy: an attempt that
  raises any \<^verbatim>\<open>Exception\<close> is followed by another one, up to 3 attempts, after a backoff
  of 5 seconds before the second and of 10 seconds before the third attempt
  (multiplier 5, floor 5, ceiling 60); after the third failure a \<^verbatim>\<open>RetryError\<close> is
  raised.  Each attempt sleeps 5 seconds plus the jitter before its call of
  \<^verbatim>\<open>urlretrieve\<close>.
\<close>

theorem download_retry_policy:
  "download_video env u p m =
     (case download_attempt env u p m of
        (Inr v, m1) \<Rightarrow> (Inr v, m1)
      | (Inl e1, m1) \<Rightarrow>
          if is_Exception e1
          then (case download_attempt env u p (time_sleep 5 m1) of
                  (Inr v, m2) \<Rightarrow> (Inr v, m2)
                | (Inl e2, m2) \<Rightarrow>
                    if is_Exception e2
                    then (case download_attempt env u p (time_sleep 10 m2) of
                            (Inr v, m3) \<Rightarrow> (Inr v, m3)
                          | (Inl e3, m3) \<Rightarrow>
                              if is_Exception e3 then (Inl (RetryError e3), m3)
                              else (Inl e3, m3))
                    else (Inl e2, m2))
          else (Inl e1, m1)) \<and>
   trace (snd (download_attempt env u p m)) =
     trace m @ [EvSleep (5 + fst (uniform env (ext m, files m))), EvUrlretrieve u p]"
proof -
  have w0: "wait_exponential download_video_policy 0 = 5"
    and w1: "wait_exponential download_video_policy (Suc 0) = 10"
    by (simp_all add: wait_exponential_def download_video_policy_def clamp_def)
  have r: "retry_on download_video_policy = is_Exception"
    and s: "stop_after_attempt download_video_policy - 1 = Suc (Suc 0)"
    by (simp_all add: download_video_policy_def)
  show ?thesis
    unfolding download_video_def retry_def s
    by (simp add: w0 w1 r download_attempt_trace split: prod.splits sum.splits)
qed

theorem download_retry_policy_witness:
  "download_video no_network_env ''https://cdn/a.mp4'' ''/tmp/v.mp4'' machine0 =
     (Inl (RetryError (OtherException ''timed out'')),
      machine0\<lparr>trace :=
        [EvSleep 6, EvUrlretrieve ''https://cdn/a.mp4'' ''/tmp/v.mp4'', EvSleep 5,
         EvSleep 6, EvUrlretrieve ''https://cdn/a.mp4'' ''/tmp/v.mp4'', EvSleep 10,
         EvSleep 6, EvUrlretrieve ''https://cdn/a.mp4'' ''/tmp/v.mp4'']\<rparr>)"
  using download_retry_policy[of no_network_env "''https://cdn/a.mp4''" "''/tmp/v.mp4''" machine0]
  by (simp add: download_attempt_def sleep_with_jitter_def call_def time_sleep_def log_event_def
      BASE_DELAY_SECONDS_def no_network_env_def quiet_env_def machine0_def)

section \<open>The temporary file\<close>

text \<open>
  Claim C9.  Whatever \<^verbatim>\<open>_process_video\<close> ends with (a result without error, a result
  with an error, or an exception), the temporary file it created no longer exists when
  it ends.
\<close>

theorem temp_file_removed:
  assumes "call (named_temporary_file env) m = (Inr video_path, m0)"
    and "process_video env post m = (res, m')"
  shows "video_path \<notin> files m'"
  using assms by (rule process_video_removes)

theorem temp_file_removed_witness:
  "''/tmp/v.mp4'' \<notin> files (snd (process_video no_network_env post_A machine0))"
proof -
  have "call (named_temporary_file no_network_env) machine0 = (Inr ''/tmp/v.mp4'', machine0)"
    by (simp add: call_def no_network_env_def quiet_env_def machine0_def)
  moreover have "process_video no_network_env post_A machine0 =
      (fst (process_video no_network_env post_A machine0),
       snd (process_video no_network_env post_A machine0))"
    by simp
  ultimately show ?thesis by (rule temp_file_removed)
qed

section \<open>The cap\<close>

text \<open>
  Claim C10.  With \<^verbatim>\<open>max_videos = 0\<close> the test \<^verbatim>\<open>if max_videos:\<close> is false and no cap is
  applied: the posts to process are all the posts whose shortcode is not in the ledger,
  and the run is the run without a cap.  A run with \<^verbatim>\<open>max_videos = 0\<close> that ends without
  an interrupt takes up every one of these posts, in the order of the list, and counts
  each once, as processed or as an error; it calls the analyzer for each of them whose
  download returns.
\<close>

theorem cap_zero_is_no_cap:
  "videos_to_process video_list st (Some 0) =
     filter (\<lambda>v. shortcode v \<notin> set (processed_shortcodes st)) (videos video_list) \<and>
   run_pipeline_from_file env video_list output_dir (Some 0) m =
     run_pipeline_from_file env video_list output_dir None m \<and>
   (run_pipeline_from_file env video_list output_dir (Some 0) m = (None, l) \<longrightarrow>
      processed_count l + error_count l =
        length (eligible video_list (load_progress (profile video_list) output_dir m)) \<and>
      map fst (run_items env video_list output_dir (Some 0) m) =
        eligible video_list (load_progress (profile video_list) output_dir m) \<and>
      analyze_calls (events_since m (mach l)) =
        downloaded env (run_items env video_list output_dir (Some 0) m))"
proof -
  have eq: "videos_to_process video_list s (Some 0) = videos_to_process video_list s None" for s
    by (simp add: videos_to_process_def)
  have same: "run_pipeline_from_file env video_list output_dir (Some 0) m =
     run_pipeline_from_file env video_list output_dir None m"
    by (simp only: run_pipeline_from_file_def eq)
  have all: "videos_to_process video_list st (Some 0) =
     filter (\<lambda>v. shortcode v \<notin> set (processed_shortcodes st)) (videos video_list)"
    by (simp add: videos_to_process_def)
  have run: "processed_count l + error_count l =
        length (eligible video_list (load_progress (profile video_list) output_dir m)) \<and>
      map fst (run_items env video_list output_dir (Some 0) m) =
        eligible video_list (load_progress (profile video_list) output_dir m) \<and>
      analyze_calls (events_since m (mach l)) =
        downloaded env (run_items env video_list output_dir (Some 0) m)"
    if r: "run_pipeline_from_file env video_list output_dir (Some 0) m = (None, l)"
    using run_counts[OF r] run_items_all[OF r] run_calls[OF r]
    by (simp add: eq videos_to_process_None)
  show ?thesis
    using all same run by blast
qed

text \<open>
  Two eligible posts and \<^verbatim>\<open>max_videos = 0\<close>: the run takes up both, counts both and calls
  the analyzer for both.
\<close>

theorem cap_zero_is_no_cap_witness:
  "fst (run_pipeline_from_file quiet_env videos_AB ''out'' (Some 0) machine0) = None \<and>
   videos_to_process videos_AB (fresh_state ''gym'' ''out'') (Some 0) = [post_A, post_B] \<and>
   map fst (run_items quiet_env videos_AB ''out'' (Some 0) machine0) = [post_A, post_B] \<and>
   processed_count (snd (run_pipeline_from_file quiet_env videos_AB ''out'' (Some 0) machine0)) +
     error_count (snd (run_pipeline_from_file quiet_env videos_AB ''out'' (Some 0) machine0)) = 2 \<and>
   processed_shortcodes (state (snd (run_pipeline_from_file quiet_env videos_AB ''out'' (Some 0) machine0))) =
     [''A'', ''B''] \<and>
   analyze_calls (events_since machine0
     (mach (snd (run_pipeline_from_file quiet_env videos_AB ''out'' (Some 0) machine0)))) =
     [''A'', ''B'']"
proof -
  let ?run = "run_pipeline_from_file quiet_env videos_AB ''out'' (Some 0) machine0"
  let ?items = "run_items quiet_env videos_AB ''out'' (Some 0) machine0"
  have f: "fst ?run = None"
    by (rule quiet_run)
  have p: "processed_shortcodes (state (snd ?run)) = [''A'', ''B'']"
    by (simp add: model_defs driver_defs fixture_defs)
  have e: "eligible videos_AB (load_progress (profile videos_AB) ''out'' machine0) = [post_A, post_B]"
    by (simp add: eligible_def load_progress_def fresh_state_def machine0_def videos_AB_def)
  have d: "downloaded quiet_env ?items = map shortcode (map fst ?items)"
    using quiet_downloads by (rule downloaded_all)
  have run: "?run = (None, snd ?run)" using f by (simp add: prod_eq_iff)
  note th = cap_zero_is_no_cap[of videos_AB "fresh_state ''gym'' ''out''" quiet_env "''out''"
      machine0 "snd ?run", unfolded e]
  have v: "videos_to_process videos_AB (fresh_state ''gym'' ''out'') (Some 0) = [post_A, post_B]"
    using th by (simp add: videos_AB_def fresh_state_def)
  have i: "map fst ?items = [post_A, post_B]"
    using th run by blast
  have n: "processed_count (snd ?run) + error_count (snd ?run) = length [post_A, post_B]"
    using th run by blast
  have "analyze_calls (events_since machine0 (mach (snd ?run))) = downloaded quiet_env ?items"
    using th run by blast
  then have "analyze_calls (events_since machine0 (mach (snd ?run))) = [''A'', ''B'']"
    by (simp only: d i) (simp add: post_A_def post_B_def)
  then show ?thesis
    using f v i n p by simp
qed

end
